theory Spec2Isabelle
  imports Main "HOL-Library.Word"
begin

unbundle bit_operations_syntax

section \<open>Values, errors and the syntax tree\<close>

text \<open>
  The interpreter of \<^verbatim>\<open>libjulia/interpreter/Interpreter.cpp\<close> computes on one value type,
  the 256-bit unsigned word \<^verbatim>\<open>u256\<close>.
\<close>

type_synonym u256 = "256 word"

text \<open>
  Every failed \<^verbatim>\<open>solAssert\<close> and every exception thrown by a library call ends the
  interpretation: that is \<open>Fatal\<close>. The C++ code may also recurse or loop without end;
  the embedding bounds the depth of user function calls and the number of loop
  iterations by a fuel argument, and \<open>OutOfFuel\<close> says that the bound was reached.
\<close>

datatype error = Fatal | OutOfFuel

text \<open>
  The syntax tree (\<^verbatim>\<open>AsmData.h\<close>). The instruction enumeration is the type parameter
  \<open>'i\<close>. A \<^verbatim>\<open>shared_ptr\<close> that may be null is an \<open>option\<close>; typed names and
  identifiers are reduced to their \<^verbatim>\<open>name\<close>; a block is its statement list.
\<close>

datatype literalKind = Number | Boolean | String

datatype 'i expression =
    Literal literalKind string
  | Identifier string
  | FunctionalInstruction 'i "'i expression list"
  | FunctionCall string "'i expression list"

datatype 'i statement =
    ExpressionStatement "'i expression"
  | Assignment "string list" "'i expression option"
  | VariableDeclaration "string list" "'i expression option"
  | If_stmt "'i expression option" "'i statement list"
  | Switch "'i expression option" "'i switchCase list"
  | FunctionDefinition string "string list" "string list" "'i statement list"
  | ForLoop "'i statement list" "'i expression option" "'i statement list" "'i statement list"
  | Block "'i statement list"
and 'i switchCase =
    Case "'i expression option" "'i statement list"

text \<open>
  What \<^verbatim>\<open>m_functions\<close> points to: the function definition node, with the fields the
  interpreter reads.
\<close>

record 'i functionDefinition =
  name :: string
  parameters :: "string list"
  returnVariables :: "string list"
  body :: "'i statement list"

section \<open>The two visitors\<close>

text \<open>
  \<^verbatim>\<open>ExpressionEvaluator\<close>: references to the machine state, the variables and the
  functions of its creator, and the value list \<^verbatim>\<open>m_values\<close> of the expression visited
  last. References are modelled by copying in and copying back.
\<close>

record ('i, 's) expressionEvaluator =
  e_state :: 's
  e_variables :: "string \<rightharpoonup> u256"
  e_functions :: "string \<rightharpoonup> 'i functionDefinition"
  m_values :: "u256 list"

text \<open>
  \<^verbatim>\<open>Interpreter\<close>: the shared machine state, the values of the variables, the meanings
  of the functions, and the scopes. A scope is a \<^verbatim>\<open>std::set\<close> of names, given here as the
  list of its elements in iteration order.
\<close>

record ('i, 's) interpreter =
  m_state :: 's
  m_variables :: "string \<rightharpoonup> u256"
  m_functions :: "string \<rightharpoonup> 'i functionDefinition"
  m_scopes :: "string list list"

text \<open>
  \<^verbatim>\<open>EVMInstructionInterpreter::eval\<close> is an external collaborator: it gets the
  instruction and the argument values, returns one value, may change the machine state
  and may fail (\<open>None\<close>). It is a parameter of the embedding: any function \<open>eval\<close>.
\<close>

datatype ('i, 's) instructionInterpreter =
  InstructionInterpreter (eval: "'i \<Rightarrow> u256 list \<Rightarrow> 's \<Rightarrow> ('s \<times> u256) option")

text \<open>
  Modelled from the spec: \<^verbatim>\<open>setValue\<close> is declared in Interpreter.h, which is not among
  the sources. It stores a single value as the value of the expression.
\<close>

definition setValue :: "u256 \<Rightarrow> ('i, 's) expressionEvaluator \<Rightarrow> ('i, 's) expressionEvaluator" where
  "setValue v ev = ev\<lparr>m_values := [v]\<rparr>"

text \<open>
  Modelled from the spec: \<^verbatim>\<open>value()\<close> is declared in Interpreter.h. An expression used
  where a single value is required must produce exactly one value, fatal otherwise.
\<close>

definition value_ev :: "('i, 's) expressionEvaluator \<Rightarrow> error + u256" where
  "value_ev ev = (case m_values ev of [v] \<Rightarrow> Inr v | _ \<Rightarrow> Inl Fatal)"

subsection \<open>Literals\<close>

text \<open>
  Modelled from the spec: the constructor of \<^verbatim>\<open>u256\<close> from text belongs to a library.
  A numeric literal parses its decimal or hexadecimal (\<^verbatim>\<open>0x\<close>) textual form into the word
  type; text that is no number is fatal.
\<close>

definition digitOfChar :: "char \<Rightarrow> nat option" where
  "digitOfChar c = (let n = (of_char c :: nat) in
     if 48 \<le> n \<and> n \<le> 57 then Some (n - 48)
     else if 97 \<le> n \<and> n \<le> 102 then Some (n - 87)
     else if 65 \<le> n \<and> n \<le> 70 then Some (n - 55)
     else None)"

fun parseDigits :: "nat \<Rightarrow> string \<Rightarrow> nat \<Rightarrow> nat option" where
  "parseDigits radix [] acc = Some acc"
| "parseDigits radix (c # cs) acc =
     (case digitOfChar c of None \<Rightarrow> None
      | Some d \<Rightarrow> if d < radix then parseDigits radix cs (acc * radix + d) else None)"

definition u256_of_string :: "string \<Rightarrow> u256 option" where
  "u256_of_string s =
     (if take 2 s = ''0x''
      then (if drop 2 s = [] then None else map_option of_nat (parseDigits 16 (drop 2 s) 0))
      else (if s = [] then None else map_option of_nat (parseDigits 10 s 0)))"

text \<open>
  Modelled from the spec: \<^verbatim>\<open>h256(value, FromBinary, AlignLeft)\<close> and its conversion to
  \<^verbatim>\<open>u256\<close> belong to libdevcore. The bytes of the string are left-aligned in the 32 bytes
  of the hash, zero-padded on the right, and the hash is read as a big-endian number.
\<close>

definition h256_AlignLeft :: "string \<Rightarrow> 8 word list" where
  "h256_AlignLeft s = map of_char (take 32 s) @ replicate (32 - length s) 0"

definition fromBigEndian :: "8 word list \<Rightarrow> u256" where
  "fromBigEndian bs = foldl (\<lambda>ret b. push_bit 8 ret OR ucast b) 0 bs"

text \<open>The 32 bytes of a word, most significant first.\<close>

definition toBigEndian :: "u256 \<Rightarrow> 8 word list" where
  "toBigEndian w = map (\<lambda>i. ucast (drop_bit (8 * (31 - i)) w)) [0..<32]"

text \<open>\<^verbatim>\<open>ExpressionEvaluator::operator()(Literal)\<close>: the value of a literal.\<close>

definition literalValue :: "literalKind \<Rightarrow> string \<Rightarrow> error + u256" where
  "literalValue k v = (case k of
      Boolean \<Rightarrow>
        (if v = ''true'' \<or> v = ''false'' then Inr (if v = ''true'' then 1 else 0) else Inl Fatal)
    | Number \<Rightarrow> (case u256_of_string v of None \<Rightarrow> Inl Fatal | Some w \<Rightarrow> Inr w)
    | String \<Rightarrow> (if length v \<le> 32 then Inr (fromBigEndian (h256_AlignLeft v)) else Inl Fatal))"

subsection \<open>Function calls: the environment of the callee\<close>

text \<open>
  The two loops of \<^verbatim>\<open>operator()(FunctionCall)\<close> that fill the map \<^verbatim>\<open>arguments\<close>: first
  the parameters, by position, then the return variables, with zero. The sizes of the
  parameter and value lists have been asserted equal before.
\<close>

fun bindParameters :: "string list \<Rightarrow> u256 list \<Rightarrow> (string \<rightharpoonup> u256) \<Rightarrow> (string \<rightharpoonup> u256)" where
  "bindParameters (p # ps) (v # vs) m = bindParameters ps vs (m(p \<mapsto> v))"
| "bindParameters _ _ m = m"

fun bindReturnVariables :: "string list \<Rightarrow> (string \<rightharpoonup> u256) \<Rightarrow> (string \<rightharpoonup> u256)" where
  "bindReturnVariables (r # rs) m = bindReturnVariables rs (m(r \<mapsto> 0))"
| "bindReturnVariables [] m = m"

definition callArguments :: "'i functionDefinition \<Rightarrow> u256 list \<Rightarrow> (string \<rightharpoonup> u256)" where
  "callArguments fd vs =
     bindReturnVariables (returnVariables fd) (bindParameters (parameters fd) vs Map.empty)"

text \<open>
  Modelled from the spec: the constructor of \<^verbatim>\<open>Interpreter\<close> is declared in Interpreter.h.
  A new interpreter shares the machine state, owns the given variables and a copy of the
  function table, and has no scope yet.
\<close>

definition newInterpreter ::
  "'s \<Rightarrow> (string \<rightharpoonup> u256) \<Rightarrow> (string \<rightharpoonup> 'i functionDefinition) \<Rightarrow> ('i, 's) interpreter" where
  "newInterpreter state variables functions =
     \<lparr>m_state = state, m_variables = variables, m_functions = functions, m_scopes = []\<rparr>"

text \<open>
  Modelled from the spec: \<^verbatim>\<open>valueOfVariable\<close> is declared in Interpreter.h. The loop
  reads the return variables of the callee in their declared order; a variable that is
  not bound is fatal.
\<close>

fun readReturnVariables :: "string list \<Rightarrow> ('i, 's) interpreter \<Rightarrow> error + u256 list" where
  "readReturnVariables [] I = Inr []"
| "readReturnVariables (r # rs) I =
     (case m_variables I r of None \<Rightarrow> Inl Fatal
      | Some v \<Rightarrow>
         (case readReturnVariables rs I of Inl err \<Rightarrow> Inl err | Inr vs \<Rightarrow> Inr (v # vs)))"

subsection \<open>Scopes\<close>

text \<open>
  Modelled from the spec: \<^verbatim>\<open>openScope\<close> is declared in Interpreter.h. Opening a scope
  pushes a new frame, which holds no name yet.
\<close>

definition openScope :: "('i, 's) interpreter \<Rightarrow> ('i, 's) interpreter" where
  "openScope I = I\<lparr>m_scopes := m_scopes I @ [[]]\<rparr>"

text \<open>
  \<^verbatim>\<open>Interpreter::closeScope\<close>: every name of the last frame is erased from the variables
  and from the functions, and exactly one of the two must have held it. The frame itself
  stays on \<^verbatim>\<open>m_scopes\<close>. Reading the last frame of an empty \<^verbatim>\<open>m_scopes\<close> is undefined in
  C++ and fatal here; it does not occur, since every \<^verbatim>\<open>closeScope\<close> follows an
  \<^verbatim>\<open>openScope\<close>.
\<close>

fun eraseNames :: "string list \<Rightarrow> ('i, 's) interpreter \<Rightarrow> error + ('i, 's) interpreter" where
  "eraseNames [] I = Inr I"
| "eraseNames (var # rest) I =
     (if (if m_variables I var = None then 0 else 1) + (if m_functions I var = None then 0 else 1) = (1::nat)
      then eraseNames rest (I\<lparr>m_variables := (m_variables I)(var := None),
                              m_functions := (m_functions I)(var := None)\<rparr>)
      else Inl Fatal)"

definition closeScope :: "('i, 's) interpreter \<Rightarrow> error + ('i, 's) interpreter" where
  "closeScope I = (if m_scopes I = [] then Inl Fatal else eraseNames (last (m_scopes I)) I)"

text \<open>The first loop of \<^verbatim>\<open>operator()(Block)\<close>: register the functions of the block.\<close>

fun registerFunctions :: "'i statement list \<Rightarrow> ('i, 's) interpreter \<Rightarrow> ('i, 's) interpreter" where
  "registerFunctions [] I = I"
| "registerFunctions (FunctionDefinition f ps rs b # rest) I =
     registerFunctions rest
       (I\<lparr>m_functions := (m_functions I)(f \<mapsto> \<lparr>name = f, parameters = ps, returnVariables = rs, body = b\<rparr>)\<rparr>)"
| "registerFunctions (_ # rest) I = registerFunctions rest I"

subsection \<open>Assignment and declaration\<close>

text \<open>
  The loops of \<^verbatim>\<open>operator()(Assignment)\<close> and \<^verbatim>\<open>operator()(VariableDeclaration)\<close>, after
  the sizes of the name and value lists have been asserted equal.
\<close>

fun assignVariables :: "string list \<Rightarrow> u256 list \<Rightarrow> ('i, 's) interpreter \<Rightarrow> error + ('i, 's) interpreter" where
  "assignVariables (n # ns) (v # vs) I =
     (if m_variables I n = None then Inl Fatal
      else assignVariables ns vs (I\<lparr>m_variables := (m_variables I)(n \<mapsto> v)\<rparr>))"
| "assignVariables _ _ I = Inr I"

fun declareVariables :: "string list \<Rightarrow> u256 list \<Rightarrow> ('i, 's) interpreter \<Rightarrow> error + ('i, 's) interpreter" where
  "declareVariables (n # ns) (v # vs) I =
     (if m_variables I n = None
      then declareVariables ns vs (I\<lparr>m_variables := (m_variables I)(n \<mapsto> v)\<rparr>)
      else Inl Fatal)"
| "declareVariables _ _ I = Inr I"

subsection \<open>Evaluation and execution\<close>

text \<open>
  \<^verbatim>\<open>Interpreter::evaluate\<close> and \<^verbatim>\<open>evaluateMulti\<close> build an expression evaluator on the
  members of the interpreter; what the evaluator leaves in them is copied back.
\<close>

definition newEvaluator :: "('i, 's) interpreter \<Rightarrow> ('i, 's) expressionEvaluator" where
  "newEvaluator I =
     \<lparr>e_state = m_state I, e_variables = m_variables I, e_functions = m_functions I, m_values = []\<rparr>"

definition afterEvaluation :: "('i, 's) expressionEvaluator \<Rightarrow> ('i, 's) interpreter \<Rightarrow> ('i, 's) interpreter" where
  "afterEvaluation ev I =
     I\<lparr>m_state := e_state ev, m_variables := e_variables ev, m_functions := e_functions ev\<rparr>"

text \<open>
  The visitors. \<open>visitExpression\<close> is \<^verbatim>\<open>ExpressionEvaluator::visit\<close> with its four
  \<^verbatim>\<open>operator()\<close>; \<open>evaluateArgsLoop\<close> is the loop of \<^verbatim>\<open>evaluateArgs\<close> over the reversed
  argument list, with the local vector \<^verbatim>\<open>values\<close>; \<open>visitStatement\<close> is
  \<^verbatim>\<open>Interpreter::visit\<close> with its eight \<^verbatim>\<open>operator()\<close>; \<open>walkVector\<close> is the walk of
  \<^verbatim>\<open>ASTWalker::operator()(Block)\<close> over the statements; \<open>interpretBlock\<close> is
  \<^verbatim>\<open>Interpreter::operator()(Block)\<close>; \<open>switchCases\<close> and \<open>whileLoop\<close> are the loops of
  the switch and of the for loop. Fuel is spent by the body of a called function and by
  every further iteration of a loop.
\<close>

function
  visitExpression :: "('i, 's) instructionInterpreter \<Rightarrow> nat \<Rightarrow> 'i expression \<Rightarrow> ('i, 's) expressionEvaluator \<Rightarrow> error + ('i, 's) expressionEvaluator"
and evaluateArgsLoop :: "('i, 's) instructionInterpreter \<Rightarrow> nat \<Rightarrow> 'i expression list \<Rightarrow> u256 list \<Rightarrow> ('i, 's) expressionEvaluator \<Rightarrow> error + (u256 list \<times> ('i, 's) expressionEvaluator)"
and evaluateArgs :: "('i, 's) instructionInterpreter \<Rightarrow> nat \<Rightarrow> 'i expression list \<Rightarrow> ('i, 's) expressionEvaluator \<Rightarrow> error + ('i, 's) expressionEvaluator"
and evaluate :: "('i, 's) instructionInterpreter \<Rightarrow> nat \<Rightarrow> 'i expression \<Rightarrow> ('i, 's) interpreter \<Rightarrow> error + (u256 \<times> ('i, 's) interpreter)"
and evaluateMulti :: "('i, 's) instructionInterpreter \<Rightarrow> nat \<Rightarrow> 'i expression \<Rightarrow> ('i, 's) interpreter \<Rightarrow> error + (u256 list \<times> ('i, 's) interpreter)"
and visitStatement :: "('i, 's) instructionInterpreter \<Rightarrow> nat \<Rightarrow> 'i statement \<Rightarrow> ('i, 's) interpreter \<Rightarrow> error + ('i, 's) interpreter"
and walkVector :: "('i, 's) instructionInterpreter \<Rightarrow> nat \<Rightarrow> 'i statement list \<Rightarrow> ('i, 's) interpreter \<Rightarrow> error + ('i, 's) interpreter"
and interpretBlock :: "('i, 's) instructionInterpreter \<Rightarrow> nat \<Rightarrow> 'i statement list \<Rightarrow> ('i, 's) interpreter \<Rightarrow> error + ('i, 's) interpreter"
and switchCases :: "('i, 's) instructionInterpreter \<Rightarrow> nat \<Rightarrow> u256 \<Rightarrow> 'i switchCase list \<Rightarrow> ('i, 's) interpreter \<Rightarrow> error + ('i, 's) interpreter"
and whileLoop :: "('i, 's) instructionInterpreter \<Rightarrow> nat \<Rightarrow> 'i expression \<Rightarrow> 'i statement list \<Rightarrow> 'i statement list \<Rightarrow> ('i, 's) interpreter \<Rightarrow> error + ('i, 's) interpreter"
where
  "visitExpression evm fuel (Literal k v) ev =
     (case literalValue k v of Inl err \<Rightarrow> Inl err | Inr w \<Rightarrow> Inr (setValue w ev))"
| "visitExpression evm fuel (Identifier n) ev =
     (case e_variables ev n of None \<Rightarrow> Inl Fatal | Some w \<Rightarrow> Inr (setValue w ev))"
| "visitExpression evm fuel (FunctionalInstruction i args) ev =
     (case evaluateArgs evm fuel args ev of Inl err \<Rightarrow> Inl err
      | Inr ev1 \<Rightarrow>
         (case eval evm i (m_values ev1) (e_state ev1) of None \<Rightarrow> Inl Fatal
          | Some (s', w) \<Rightarrow> Inr (setValue w (ev1\<lparr>e_state := s'\<rparr>))))"
| "visitExpression evm fuel (FunctionCall f args) ev =
     (if e_functions ev f = None then Inl Fatal
      else
       (case evaluateArgs evm fuel args ev of Inl err \<Rightarrow> Inl err
        | Inr ev1 \<Rightarrow>
           (case e_functions ev1 f of None \<Rightarrow> Inl Fatal
            | Some fd \<Rightarrow>
               if length (m_values ev1) = length (parameters fd)
               then
                (case fuel of 0 \<Rightarrow> Inl OutOfFuel
                 | Suc n \<Rightarrow>
                    (case interpretBlock evm n (body fd)
                            (newInterpreter (e_state ev1) (callArguments fd (m_values ev1)) (e_functions ev1)) of
                       Inl err \<Rightarrow> Inl err
                     | Inr interp \<Rightarrow>
                        (case readReturnVariables (returnVariables fd) interp of Inl err \<Rightarrow> Inl err
                         | Inr rs \<Rightarrow> Inr (ev1\<lparr>e_state := m_state interp, m_values := rs\<rparr>))))
               else Inl Fatal)))"
| "evaluateArgsLoop evm fuel [] values ev = Inr (values, ev)"
| "evaluateArgsLoop evm fuel (e # rest) values ev =
     (case visitExpression evm fuel e ev of Inl err \<Rightarrow> Inl err
      | Inr ev1 \<Rightarrow>
         (case value_ev ev1 of Inl err \<Rightarrow> Inl err
          | Inr v \<Rightarrow> evaluateArgsLoop evm fuel rest (values @ [v]) ev1))"
| "evaluateArgs evm fuel es ev =
     (case evaluateArgsLoop evm fuel (rev es) [] ev of Inl err \<Rightarrow> Inl err
      | Inr (values, ev1) \<Rightarrow> Inr (ev1\<lparr>m_values := rev values\<rparr>))"
| "evaluate evm fuel e I =
     (case visitExpression evm fuel e (newEvaluator I) of Inl err \<Rightarrow> Inl err
      | Inr ev \<Rightarrow>
         (case value_ev ev of Inl err \<Rightarrow> Inl err | Inr v \<Rightarrow> Inr (v, afterEvaluation ev I)))"
| "evaluateMulti evm fuel e I =
     (case visitExpression evm fuel e (newEvaluator I) of Inl err \<Rightarrow> Inl err
      | Inr ev \<Rightarrow> Inr (m_values ev, afterEvaluation ev I))"
| "visitStatement evm fuel (ExpressionStatement e) I =
     (case evaluateMulti evm fuel e I of Inl err \<Rightarrow> Inl err | Inr (vs, I1) \<Rightarrow> Inr I1)"
| "visitStatement evm fuel (Assignment names v) I =
     (case v of None \<Rightarrow> Inl Fatal
      | Some e \<Rightarrow>
         (case evaluateMulti evm fuel e I of Inl err \<Rightarrow> Inl err
          | Inr (vs, I1) \<Rightarrow>
             if length vs = length names then assignVariables names vs I1 else Inl Fatal))"
| "visitStatement evm fuel (VariableDeclaration names v) I =
     (case (case v of None \<Rightarrow> Inr (replicate (length names) 0, I)
             | Some e \<Rightarrow> evaluateMulti evm fuel e I) of
        Inl err \<Rightarrow> Inl err
      | Inr (vs, I1) \<Rightarrow>
         if length vs = length names then declareVariables names vs I1 else Inl Fatal)"
| "visitStatement evm fuel (If_stmt c b) I =
     (case c of None \<Rightarrow> Inl Fatal
      | Some e \<Rightarrow>
         (case evaluate evm fuel e I of Inl err \<Rightarrow> Inl err
          | Inr (w, I1) \<Rightarrow> if w \<noteq> 0 then interpretBlock evm fuel b I1 else Inr I1))"
| "visitStatement evm fuel (Switch ex cases) I =
     (case ex of None \<Rightarrow> Inl Fatal
      | Some e \<Rightarrow>
         (case evaluate evm fuel e I of Inl err \<Rightarrow> Inl err
          | Inr (val, I1) \<Rightarrow> switchCases evm fuel val cases I1))"
| "visitStatement evm fuel (FunctionDefinition f ps rs b) I = Inr I"
| "visitStatement evm fuel (ForLoop pre c post b) I =
     (case c of None \<Rightarrow> Inl Fatal
      | Some e \<Rightarrow>
         (case walkVector evm fuel pre (openScope I) of Inl err \<Rightarrow> Inl err
          | Inr I1 \<Rightarrow>
             (case whileLoop evm fuel e post b I1 of Inl err \<Rightarrow> Inl err
              | Inr I2 \<Rightarrow> closeScope I2)))"
| "visitStatement evm fuel (Block ss) I = interpretBlock evm fuel ss I"
| "walkVector evm fuel [] I = Inr I"
| "walkVector evm fuel (s # rest) I =
     (case visitStatement evm fuel s I of Inl err \<Rightarrow> Inl err
      | Inr I1 \<Rightarrow> walkVector evm fuel rest I1)"
| "interpretBlock evm fuel ss I =
     (case walkVector evm fuel ss (registerFunctions ss (openScope I)) of Inl err \<Rightarrow> Inl err
      | Inr I1 \<Rightarrow> closeScope I1)"
| "switchCases evm fuel val [] I = Inr I"
| "switchCases evm fuel val (Case g b # rest) I =
     (case g of None \<Rightarrow> interpretBlock evm fuel b I
      | Some ge \<Rightarrow>
         (case evaluate evm fuel ge I of Inl err \<Rightarrow> Inl err
          | Inr (w, I1) \<Rightarrow>
             if w = val then interpretBlock evm fuel b I1 else switchCases evm fuel val rest I1))"
| "whileLoop evm fuel cond post b I =
     (case evaluate evm fuel cond I of Inl err \<Rightarrow> Inl err
      | Inr (w, I1) \<Rightarrow>
         if w \<noteq> 0
         then
          (case interpretBlock evm fuel b I1 of Inl err \<Rightarrow> Inl err
           | Inr I2 \<Rightarrow>
              (case interpretBlock evm fuel post I2 of Inl err \<Rightarrow> Inl err
               | Inr I3 \<Rightarrow>
                  (case fuel of 0 \<Rightarrow> Inl OutOfFuel
                   | Suc n \<Rightarrow> whileLoop evm n cond post b I3)))
         else Inr I1)"
  by pat_completeness auto

termination
  apply (relation "inv_image (less_than <*lex*> less_than) (\<lambda>x. case x of
      Inl (Inl (Inl (evm, fuel, e, ev))) \<Rightarrow> (fuel, 3 * size e)
    | Inl (Inl (Inr (evm, fuel, es, vs, ev))) \<Rightarrow> (fuel, 3 * size_list size (rev es) + 1)
    | Inl (Inr (Inl (evm, fuel, es, ev))) \<Rightarrow> (fuel, 3 * size_list size es + 2)
    | Inl (Inr (Inr (Inl (evm, fuel, e, I)))) \<Rightarrow> (fuel, 3 * size e + 1)
    | Inl (Inr (Inr (Inr (evm, fuel, e, I)))) \<Rightarrow> (fuel, 3 * size e + 1)
    | Inr (Inl (Inl (evm, fuel, s, I))) \<Rightarrow> (fuel, 3 * size s)
    | Inr (Inl (Inr (evm, fuel, ss, I))) \<Rightarrow> (fuel, 3 * size_list size ss)
    | Inr (Inr (Inl (evm, fuel, ss, I))) \<Rightarrow> (fuel, 3 * size_list size ss + 1)
    | Inr (Inr (Inr (Inl (evm, fuel, val, cs, I)))) \<Rightarrow> (fuel, 3 * size_list size cs)
    | Inr (Inr (Inr (Inr (evm, fuel, c, post, b, I)))) \<Rightarrow>
        (fuel, 3 * (size c + size_list size post + size_list size b) + 2))")
  apply (intro wf_inv_image wf_lex_prod wf_less_than)
  apply simp_all
  done

declare evaluate.simps [simp del] evaluateMulti.simps [simp del] evaluateArgs.simps [simp del]
  interpretBlock.simps [simp del] whileLoop.simps [simp del]

section \<open>Notions used to state the properties\<close>

text \<open>What an expression evaluator may not change: the variables and the functions.\<close>

definition sameBindings :: "('i, 's) expressionEvaluator \<Rightarrow> ('i, 's) expressionEvaluator \<Rightarrow> bool" where
  "sameBindings ev ev' = (e_variables ev' = e_variables ev \<and> e_functions ev' = e_functions ev)"

text \<open>No frame of the interpreter holds a name.\<close>

definition framesEmpty :: "('i, 's) interpreter \<Rightarrow> bool" where
  "framesEmpty I = list_all (\<lambda>frame. frame = []) (m_scopes I)"

definition grows :: "('i, 's) interpreter \<Rightarrow> ('i, 's) interpreter \<Rightarrow> bool" where
  "grows I I' = (framesEmpty I' \<and> dom (m_variables I) \<subseteq> dom (m_variables I'))"

text \<open>
  The cases a switch passes over before it reaches the one it executes: each has a guard,
  the guards are evaluated in order, and none yields the value of the switch expression.
  The result is the interpreter after these evaluations.
\<close>

fun passCases :: "('i, 's) instructionInterpreter \<Rightarrow> nat \<Rightarrow> u256 \<Rightarrow> 'i switchCase list \<Rightarrow>
    ('i, 's) interpreter \<Rightarrow> ('i, 's) interpreter option" where
  "passCases evm fuel val [] I = Some I"
| "passCases evm fuel val (Case None b # rest) I = None"
| "passCases evm fuel val (Case (Some ge) b # rest) I =
     (case evaluate evm fuel ge I of Inl err \<Rightarrow> None
      | Inr (w, I1) \<Rightarrow> if w = val then None else passCases evm fuel val rest I1)"

text \<open>Observations of a result: the values, a variable, the machine state.\<close>

definition valuesOf :: "error + (u256 list \<times> ('i, 's) interpreter) \<Rightarrow> error + u256 list" where
  "valuesOf r = (case r of Inl err \<Rightarrow> Inl err | Inr (vs, I) \<Rightarrow> Inr vs)"

definition variableOf :: "string \<Rightarrow> error + ('i, 's) interpreter \<Rightarrow> error + u256 option" where
  "variableOf x r = (case r of Inl err \<Rightarrow> Inl err | Inr I \<Rightarrow> Inr (m_variables I x))"

definition stateOf :: "error + ('i, 's) interpreter \<Rightarrow> error + 's" where
  "stateOf r = (case r of Inl err \<Rightarrow> Inl err | Inr I \<Rightarrow> Inr (m_state I))"

section \<open>A sample machine and sample programs\<close>

text \<open>
  The word machine is a parameter of the interpreter. To run the interpreter on concrete
  programs, this sample machine has a few instructions; its state is the trace of the
  instructions executed so far, each with its arguments, so that every instruction has
  an observable effect. An instruction applied to the wrong number of arguments fails.
\<close>

datatype sampleInstruction = ADD | SUB | MUL | LT | EQ | POP | GAS

fun sampleResult :: "sampleInstruction \<Rightarrow> u256 list \<Rightarrow> u256 option" where
  "sampleResult ADD [a, b] = Some (a + b)"
| "sampleResult SUB [a, b] = Some (a - b)"
| "sampleResult MUL [a, b] = Some (a * b)"
| "sampleResult LT [a, b] = Some (if a < b then 1 else 0)"
| "sampleResult EQ [a, b] = Some (if a = b then 1 else 0)"
| "sampleResult POP [a] = Some 0"
| "sampleResult GAS [] = Some 7"
| "sampleResult _ _ = None"

type_synonym sampleState = "(sampleInstruction \<times> u256 list) list"

definition sampleMachine :: "(sampleInstruction, sampleState) instructionInterpreter" where
  "sampleMachine = InstructionInterpreter (\<lambda>i args trace.
     (case sampleResult i args of None \<Rightarrow> None | Some w \<Rightarrow> Some (trace @ [(i, args)], w)))"

definition emptyInterpreter :: "(sampleInstruction, sampleState) interpreter" where
  "emptyInterpreter = newInterpreter [] Map.empty Map.empty"

definition emptyEvaluator :: "(sampleInstruction, sampleState) expressionEvaluator" where
  "emptyEvaluator = newEvaluator emptyInterpreter"


text \<open>
  \<^verbatim>\<open>function f(n) -> r { switch lt(n, 2) case 1 { r := 1 } default { r := mul(n, f(sub(n, 1))) } }\<close>
\<close>

definition factorialBody :: "sampleInstruction statement list" where
  "factorialBody =
     [Switch (Some (FunctionalInstruction LT [Identifier ''n'', Literal Number ''2'']))
        [Case (Some (Literal Number ''1'')) [Assignment [''r''] (Some (Literal Number ''1''))],
         Case None [Assignment [''r''] (Some (FunctionalInstruction MUL
            [Identifier ''n'',
             FunctionCall ''f'' [FunctionalInstruction SUB [Identifier ''n'', Literal Number ''1'']]]))]]]"

definition factorial :: "sampleInstruction statement" where
  "factorial = FunctionDefinition ''f'' [''n''] [''r''] factorialBody"

definition factorialDefinition :: "sampleInstruction functionDefinition" where
  "factorialDefinition =
     \<lparr>name = ''f'', parameters = [''n''], returnVariables = [''r''], body = factorialBody\<rparr>"

text \<open>
  \<^verbatim>\<open>function even(n) -> r { switch n case 0 { r := 1 } default { r := odd(sub(n, 1)) } }\<close> and
  \<^verbatim>\<open>function odd(n) -> r { switch n case 0 { r := 0 } default { r := even(sub(n, 1)) } }\<close>
\<close>

definition evenOdd :: "sampleInstruction statement list" where
  "evenOdd =
     [FunctionDefinition ''even'' [''n''] [''r'']
        [Switch (Some (Identifier ''n''))
           [Case (Some (Literal Number ''0'')) [Assignment [''r''] (Some (Literal Number ''1''))],
            Case None [Assignment [''r''] (Some
               (FunctionCall ''odd'' [FunctionalInstruction SUB [Identifier ''n'', Literal Number ''1'']]))]]],
      FunctionDefinition ''odd'' [''n''] [''r'']
        [Switch (Some (Identifier ''n''))
           [Case (Some (Literal Number ''0'')) [Assignment [''r''] (Some (Literal Number ''0''))],
            Case None [Assignment [''r''] (Some
               (FunctionCall ''even'' [FunctionalInstruction SUB [Identifier ''n'', Literal Number ''1'']]))]]]]"

text \<open>A caller that owns variables named like those of \<open>factorial\<close>, and knows the functions.\<close>

definition caller :: "(sampleInstruction, sampleState) interpreter" where
  "caller = registerFunctions (factorial # evenOdd)
     (newInterpreter [] [''n'' \<mapsto> 3, ''r'' \<mapsto> 77] Map.empty)"


text \<open>
  \<^verbatim>\<open>for { let i := 0 let j := 1 } lt(i, 3) { i := add(i, 1) } { pop(mul(i, j)) }\<close>
\<close>

definition countToThree :: "sampleInstruction statement" where
  "countToThree = ForLoop
     [VariableDeclaration [''i''] (Some (Literal Number ''0'')),
      VariableDeclaration [''j''] (Some (Literal Number ''1''))]
     (Some (FunctionalInstruction LT [Identifier ''i'', Literal Number ''3'']))
     [Assignment [''i''] (Some (FunctionalInstruction ADD [Identifier ''i'', Literal Number ''1'']))]
     [ExpressionStatement (FunctionalInstruction POP [FunctionalInstruction MUL [Identifier ''i'', Identifier ''j'']])]"

text \<open>
  \<^verbatim>\<open>switch x case 1 { pop(1) } case 5 { pop(5) } case 5 { pop(55) } default { pop(0) }\<close>
\<close>

definition fourCases :: "sampleInstruction switchCase list" where
  "fourCases =
     [Case (Some (Literal Number ''1'')) [ExpressionStatement (FunctionalInstruction POP [Literal Number ''1''])],
      Case (Some (Literal Number ''5'')) [ExpressionStatement (FunctionalInstruction POP [Literal Number ''5''])],
      Case (Some (Literal Number ''5'')) [ExpressionStatement (FunctionalInstruction POP [Literal Number ''55''])],
      Case None [ExpressionStatement (FunctionalInstruction POP [Literal Number ''0''])]]"

text \<open>\<^verbatim>\<open>{ function f() { } let f }\<close>: a variable named like a function of the same block.\<close>

definition shadowing :: "sampleInstruction statement list" where
  "shadowing = [FunctionDefinition ''f'' [] [] [], VariableDeclaration [''f''] None]"

text \<open>\<^verbatim>\<open>{ { let x } { let x } }\<close>: two sibling blocks that declare the same name.\<close>

definition siblings :: "sampleInstruction statement list" where
  "siblings = [Block [VariableDeclaration [''x''] None], Block [VariableDeclaration [''x''] None]]"

text \<open>
  \<^verbatim>\<open>for { let i := 0 } lt(i, 2) { i := add(i, 1) } { let t := i }\<close>: a loop whose body
  block declares a variable.
\<close>

definition declaresInBody :: "sampleInstruction statement" where
  "declaresInBody = ForLoop
     [VariableDeclaration [''i''] (Some (Literal Number ''0''))]
     (Some (FunctionalInstruction LT [Identifier ''i'', Literal Number ''2'']))
     [Assignment [''i''] (Some (FunctionalInstruction ADD [Identifier ''i'', Literal Number ''1'']))]
     [VariableDeclaration [''t''] (Some (Identifier ''i''))]"

section \<open>Expression evaluation leaves the bindings alone\<close>

lemma value_ev_Inr: "value_ev ev = Inr v \<Longrightarrow> m_values ev = [v]"
  by (auto simp: value_ev_def split: list.splits)

lemma evaluateArgsLoop_sameBindings:
  "\<forall>e\<in>set es. \<forall>ev ev'. visitExpression evm fuel e ev = Inr ev' \<longrightarrow> sameBindings ev ev' \<Longrightarrow>
   evaluateArgsLoop evm fuel es vs ev = Inr (vs', ev') \<Longrightarrow> sameBindings ev ev'"
proof (induction es arbitrary: vs ev)
  case Nil
  then show ?case by (simp add: sameBindings_def)
next
  case (Cons e es)
  from Cons.prems(2) obtain ev1 v where
    a: "visitExpression evm fuel e ev = Inr ev1" and
    b: "evaluateArgsLoop evm fuel es (vs @ [v]) ev1 = Inr (vs', ev')"
    by (auto split: sum.splits)
  have "sameBindings ev ev1" using Cons.prems(1) a by simp
  moreover have "sameBindings ev1 ev'" using Cons.IH[OF _ b] Cons.prems(1) by simp
  ultimately show ?case by (simp add: sameBindings_def)
qed

lemma evaluateArgs_sameBindings:
  assumes "\<forall>e\<in>set es. \<forall>ev ev'. visitExpression evm fuel e ev = Inr ev' \<longrightarrow> sameBindings ev ev'"
    and "evaluateArgs evm fuel es ev = Inr ev1"
  shows "sameBindings ev ev1"
proof -
  from assms(2) obtain vs ev0 where
    c: "evaluateArgsLoop evm fuel (rev es) [] ev = Inr (vs, ev0)" and d: "ev1 = ev0\<lparr>m_values := rev vs\<rparr>"
    by (auto simp: evaluateArgs.simps split: sum.splits)
  have "sameBindings ev ev0"
    using evaluateArgsLoop_sameBindings[OF _ c] assms(1) by auto
  then show ?thesis using d by (simp add: sameBindings_def)
qed

lemma visitExpression_sameBindings:
  "visitExpression evm fuel e ev = Inr ev' \<Longrightarrow> sameBindings ev ev'"
proof (induction e arbitrary: ev ev')
  case (Literal k v)
  then show ?case by (auto simp: sameBindings_def setValue_def split: sum.splits)
next
  case (Identifier n)
  then show ?case by (auto simp: sameBindings_def setValue_def split: option.splits)
next
  case (FunctionalInstruction i args)
  from FunctionalInstruction.prems obtain ev1 where
    a: "evaluateArgs evm fuel args ev = Inr ev1" and
    b: "e_variables ev' = e_variables ev1 \<and> e_functions ev' = e_functions ev1"
    by (auto simp: setValue_def split: sum.splits option.splits)
  have "sameBindings ev ev1"
    using evaluateArgs_sameBindings[OF _ a] FunctionalInstruction.IH by auto
  then show ?case using b by (simp add: sameBindings_def)
next
  case (FunctionCall f args)
  from FunctionCall.prems obtain ev1 where
    a: "evaluateArgs evm fuel args ev = Inr ev1" and
    b: "e_variables ev' = e_variables ev1 \<and> e_functions ev' = e_functions ev1"
    by (auto split: sum.splits option.splits if_splits nat.splits)
  have "sameBindings ev ev1"
    using evaluateArgs_sameBindings[OF _ a] FunctionCall.IH by auto
  then show ?case using b by (simp add: sameBindings_def)
qed

lemma evaluate_same:
  "evaluate evm fuel e I = Inr (v, I') \<Longrightarrow>
     m_variables I' = m_variables I \<and> m_functions I' = m_functions I \<and> m_scopes I' = m_scopes I"
  by (auto simp: evaluate.simps afterEvaluation_def newEvaluator_def sameBindings_def
      split: sum.splits dest!: visitExpression_sameBindings)

lemma evaluateMulti_same:
  "evaluateMulti evm fuel e I = Inr (vs, I') \<Longrightarrow>
     m_variables I' = m_variables I \<and> m_functions I' = m_functions I \<and> m_scopes I' = m_scopes I"
  by (auto simp: evaluateMulti.simps afterEvaluation_def newEvaluator_def sameBindings_def
      split: sum.splits dest!: visitExpression_sameBindings)

text \<open>
  C9. Evaluating an expression leaves the variable bindings of the evaluating interpreter
  unchanged: the expression evaluator only reads the variables it was given, and a
  called function works on an interpreter of its own, of which only the machine state and
  the values of the return variables are kept. This holds for \<open>evaluate\<close>, for
  \<open>evaluateMulti\<close> and for the evaluator's own visit.
\<close>

theorem evaluation_keeps_variables:
  "(evaluate evm fuel e I = Inr (v, I') \<longrightarrow> m_variables I' = m_variables I) \<and>
   (evaluateMulti evm fuel e I = Inr (vs, I'') \<longrightarrow> m_variables I'' = m_variables I) \<and>
   (visitExpression evm fuel e ev = Inr ev' \<longrightarrow> e_variables ev' = e_variables ev)"
  using evaluate_same[of evm fuel e I v I'] evaluateMulti_same[of evm fuel e I vs I'']
    visitExpression_sameBindings[of evm fuel e ev ev']
  by (simp add: sameBindings_def)

text \<open>
  The call \<^verbatim>\<open>f(n)\<close> in a caller whose own \<^verbatim>\<open>n\<close> is 3 and whose own \<^verbatim>\<open>r\<close> is 77: the
  value is 6, the machine state has changed, and the caller's variables are as before.
\<close>

theorem evaluation_keeps_variables_witness:
  "\<exists>I'. evaluate sampleMachine 3 (FunctionCall ''f'' [Identifier ''n'']) caller = Inr (6, I') \<and>
     m_variables I' = m_variables caller \<and> m_variables I' ''r'' = Some 77 \<and>
     m_state I' \<noteq> m_state caller"
proof -
  let ?r = "evaluate sampleMachine 3 (FunctionCall ''f'' [Identifier ''n'']) caller"
  have ok: "\<not> isl ?r" by code_simp
  have six: "fst (projr ?r) = 6" by code_simp
  have st: "m_state (snd (projr ?r)) \<noteq> m_state caller" by code_simp
  have r: "m_variables caller ''r'' = Some 77" by code_simp
  from ok six have eq: "?r = Inr (6, snd (projr ?r))"
    by (cases ?r) auto
  from evaluation_keeps_variables[of sampleMachine 3 "FunctionCall ''f'' [Identifier ''n'']" caller 6 "snd (projr ?r)"] eq
  have "m_variables (snd (projr ?r)) = m_variables caller" by simp
  with eq st r show ?thesis by auto
qed

section \<open>The order of argument evaluation\<close>

lemma evaluateArgsLoop_append:
  "evaluateArgsLoop evm fuel (xs @ ys) vs ev =
     (case evaluateArgsLoop evm fuel xs vs ev of Inl err \<Rightarrow> Inl err
      | Inr (vs1, ev1) \<Rightarrow> evaluateArgsLoop evm fuel ys vs1 ev1)"
  by (induction xs arbitrary: vs ev) (auto split: sum.splits)




section \<open>More fuel does not change a result\<close>

lemma more_fuel:
  fixes evm :: "('i, 's) instructionInterpreter"
    and e :: "'i expression" and ev :: "('i, 's) expressionEvaluator"
    and I :: "('i, 's) interpreter" and es :: "'i expression list" and vs :: "u256 list"
  shows "visitExpression evm fuel e ev = Inr r1 \<Longrightarrow> visitExpression evm (fuel + k) e ev = Inr r1"
    and "evaluateArgsLoop evm fuel es vs ev = Inr r2 \<Longrightarrow> evaluateArgsLoop evm (fuel + k) es vs ev = Inr r2"
    and "evaluateArgs evm fuel es ev = Inr r3 \<Longrightarrow> evaluateArgs evm (fuel + k) es ev = Inr r3"
    and "evaluate evm fuel e I = Inr r4 \<Longrightarrow> evaluate evm (fuel + k) e I = Inr r4"
    and "evaluateMulti evm fuel e I = Inr r5 \<Longrightarrow> evaluateMulti evm (fuel + k) e I = Inr r5"
    and "visitStatement evm fuel s I = Inr r6 \<Longrightarrow> visitStatement evm (fuel + k) s I = Inr r6"
    and "walkVector evm fuel ss I = Inr r7 \<Longrightarrow> walkVector evm (fuel + k) ss I = Inr r7"
    and "interpretBlock evm fuel ss I = Inr r8 \<Longrightarrow> interpretBlock evm (fuel + k) ss I = Inr r8"
    and "switchCases evm fuel val cs I = Inr r9 \<Longrightarrow> switchCases evm (fuel + k) val cs I = Inr r9"
    and "whileLoop evm fuel c post b I = Inr r10 \<Longrightarrow> whileLoop evm (fuel + k) c post b I = Inr r10"
proof (induct evm fuel e ev and evm fuel es vs ev and evm fuel es ev and evm fuel e I and evm fuel e I
    and evm fuel s I and evm fuel ss I and evm fuel ss I and evm fuel val cs I and evm fuel c post b I
    arbitrary: r1 and r2 and r3 and r4 and r5 and r6 and r7 and r8 and r9 and r10
    rule: visitExpression_evaluateArgsLoop_evaluateArgs_evaluate_evaluateMulti_visitStatement_walkVector_interpretBlock_switchCases_whileLoop.induct)
  case (4 evm fuel f args ev)
  from "4.prems" have nz: "e_functions ev f \<noteq> None"
    by (auto split: if_splits)
  show ?case
  proof (cases "evaluateArgs evm fuel args ev")
    case (Inl err)
    then show ?thesis using "4.prems" nz by simp
  next
    case ev1: (Inr ev1)
    have a': "evaluateArgs evm (fuel + k) args ev = Inr ev1" using "4.hyps"(1)[OF nz ev1] .
    show ?thesis
    proof (cases "e_functions ev1 f")
      case None
      then show ?thesis using "4.prems" nz ev1 by simp
    next
      case fd: (Some fd)
      show ?thesis
      proof (cases "length (m_values ev1) = length (parameters fd)")
        case False
        then show ?thesis using "4.prems" nz ev1 fd by simp
      next
        case len: True
        show ?thesis
        proof (cases fuel)
          case 0
          then show ?thesis using "4.prems" nz ev1 fd len by simp
        next
          case n: (Suc n)
          let ?callee = "newInterpreter (e_state ev1) (callArguments fd (m_values ev1)) (e_functions ev1)"
          show ?thesis
          proof (cases "interpretBlock evm n (body fd) ?callee")
            case (Inl err)
            then show ?thesis using "4.prems" nz ev1 fd len n by simp
          next
            case interp: (Inr interp)
            have b': "interpretBlock evm (n + k) (body fd) ?callee = Inr interp"
              using "4.hyps"(2)[OF nz ev1 fd len n interp] .
            show ?thesis using "4.prems" nz ev1 a' fd len n interp b' by simp
          qed
        qed
      qed
    qed
  qed
next
  case (7 evm fuel es ev)
  then show ?case
    by (auto simp: evaluateArgs.simps split: sum.splits)
next
  case (8 evm fuel e I)
  then show ?case
    by (auto simp: evaluate.simps split: sum.splits)
next
  case (9 evm fuel e I)
  then show ?case
    by (auto simp: evaluateMulti.simps split: sum.splits)
next
  case (20 evm fuel ss I)
  then show ?case
    by (auto simp: interpretBlock.simps split: sum.splits)
next
  case (23 evm fuel cond post b I)
  from "23.prems" obtain w I1 where ev: "evaluate evm fuel cond I = Inr (w, I1)"
    by (auto simp: whileLoop.simps[of evm fuel cond post b I] split: sum.splits)
  have ev': "evaluate evm (fuel + k) cond I = Inr (w, I1)" using "23.hyps"(1)[OF ev] .
  show ?case
  proof (cases "w = 0")
    case True
    then show ?thesis using "23.prems" ev ev'
      by (simp add: whileLoop.simps[of evm fuel cond post b I] whileLoop.simps[of evm "fuel + k" cond post b I])
  next
    case False
    from "23.prems" ev False obtain I2 I3 n where b: "interpretBlock evm fuel b I1 = Inr I2"
      and p: "interpretBlock evm fuel post I2 = Inr I3" and f: "fuel = Suc n"
      and l: "whileLoop evm n cond post b I3 = Inr r10"
      by (auto simp: whileLoop.simps[of evm fuel cond post b I] split: sum.splits nat.splits)
    have b': "interpretBlock evm (fuel + k) b I1 = Inr I2" using "23.hyps"(2)[OF ev refl False b] .
    have p': "interpretBlock evm (fuel + k) post I2 = Inr I3" using "23.hyps"(3)[OF ev refl False b p] .
    have l': "whileLoop evm (n + k) cond post b I3 = Inr r10" using "23.hyps"(4)[OF ev refl False b p f l] .
    have fk: "fuel + k = Suc (n + k)" using f by simp
    show ?thesis using ev' False b' p' l' unfolding fk
      by (simp add: whileLoop.simps[of evm "Suc (n + k)" cond post b I])
  qed
qed (auto split: sum.splits option.splits if_splits)

lemma valuesOf_more_fuel:
  "valuesOf (evaluateMulti evm n e I) = Inr vs \<Longrightarrow> n \<le> m \<Longrightarrow>
     valuesOf (evaluateMulti evm m e I) = Inr vs"
proof (cases "evaluateMulti evm n e I")
  case (Inl err)
  assume "valuesOf (evaluateMulti evm n e I) = Inr vs"
  then show ?thesis using Inl by (simp add: valuesOf_def)
next
  case (Inr r)
  assume v: "valuesOf (evaluateMulti evm n e I) = Inr vs" and le: "n \<le> m"
  have "evaluateMulti evm (n + (m - n)) e I = Inr r" using more_fuel(5)[OF Inr] .
  then have "evaluateMulti evm m e I = Inr r" using le by simp
  then show ?thesis using v Inr by simp
qed

lemma stateOf_more_fuel:
  "stateOf (visitStatement evm n s I) = Inr st \<Longrightarrow> n \<le> m \<Longrightarrow>
     stateOf (visitStatement evm m s I) = Inr st"
proof (cases "visitStatement evm n s I")
  case (Inl err)
  assume "stateOf (visitStatement evm n s I) = Inr st"
  then show ?thesis using Inl by (simp add: stateOf_def)
next
  case (Inr r)
  assume v: "stateOf (visitStatement evm n s I) = Inr st" and le: "n \<le> m"
  have "visitStatement evm (n + (m - n)) s I = Inr r" using more_fuel(6)[OF Inr] .
  then have "visitStatement evm m s I = Inr r" using le by simp
  then show ?thesis using v Inr by simp
qed

lemma variableOf_more_fuel:
  "variableOf x (interpretBlock evm n ss I) = Inr v \<Longrightarrow> n \<le> m \<Longrightarrow>
     variableOf x (interpretBlock evm m ss I) = Inr v"
proof (cases "interpretBlock evm n ss I")
  case (Inl err)
  assume "variableOf x (interpretBlock evm n ss I) = Inr v"
  then show ?thesis using Inl by (simp add: variableOf_def)
next
  case (Inr r)
  assume v: "variableOf x (interpretBlock evm n ss I) = Inr v" and le: "n \<le> m"
  have "interpretBlock evm (n + (m - n)) ss I = Inr r" using more_fuel(8)[OF Inr] .
  then have "interpretBlock evm m ss I = Inr r" using le by simp
  then show ?thesis using v Inr by simp
qed

text \<open>
  More generally, every result other than \<open>OutOfFuel\<close>, a fatal error included, is the
  result for every larger fuel.
\<close>

lemma settled:
  fixes evm :: "('i, 's) instructionInterpreter"
    and e :: "'i expression" and ev :: "('i, 's) expressionEvaluator"
    and I :: "('i, 's) interpreter" and es :: "'i expression list" and vs :: "u256 list"
  shows "visitExpression evm fuel e ev \<noteq> Inl OutOfFuel \<Longrightarrow>
           visitExpression evm (fuel + k) e ev = visitExpression evm fuel e ev"
    and "evaluateArgsLoop evm fuel es vs ev \<noteq> Inl OutOfFuel \<Longrightarrow>
           evaluateArgsLoop evm (fuel + k) es vs ev = evaluateArgsLoop evm fuel es vs ev"
    and "evaluateArgs evm fuel es ev \<noteq> Inl OutOfFuel \<Longrightarrow>
           evaluateArgs evm (fuel + k) es ev = evaluateArgs evm fuel es ev"
    and "evaluate evm fuel e I \<noteq> Inl OutOfFuel \<Longrightarrow>
           evaluate evm (fuel + k) e I = evaluate evm fuel e I"
    and "evaluateMulti evm fuel e I \<noteq> Inl OutOfFuel \<Longrightarrow>
           evaluateMulti evm (fuel + k) e I = evaluateMulti evm fuel e I"
    and "visitStatement evm fuel s I \<noteq> Inl OutOfFuel \<Longrightarrow>
           visitStatement evm (fuel + k) s I = visitStatement evm fuel s I"
    and "walkVector evm fuel ss I \<noteq> Inl OutOfFuel \<Longrightarrow>
           walkVector evm (fuel + k) ss I = walkVector evm fuel ss I"
    and "interpretBlock evm fuel ss I \<noteq> Inl OutOfFuel \<Longrightarrow>
           interpretBlock evm (fuel + k) ss I = interpretBlock evm fuel ss I"
    and "switchCases evm fuel val cs I \<noteq> Inl OutOfFuel \<Longrightarrow>
           switchCases evm (fuel + k) val cs I = switchCases evm fuel val cs I"
    and "whileLoop evm fuel c post b I \<noteq> Inl OutOfFuel \<Longrightarrow>
           whileLoop evm (fuel + k) c post b I = whileLoop evm fuel c post b I"
proof (induct evm fuel e ev and evm fuel es vs ev and evm fuel es ev and evm fuel e I and evm fuel e I
    and evm fuel s I and evm fuel ss I and evm fuel ss I and evm fuel val cs I and evm fuel c post b I
    rule: visitExpression_evaluateArgsLoop_evaluateArgs_evaluate_evaluateMulti_visitStatement_walkVector_interpretBlock_switchCases_whileLoop.induct)
  case (4 evm fuel f args ev)
  show ?case
  proof (cases "e_functions ev f = None")
    case True
    then show ?thesis by simp
  next
    case nz: False
    have a': "evaluateArgs evm (fuel + k) args ev = evaluateArgs evm fuel args ev"
      using "4.hyps"(1)[OF nz] "4.prems" nz by (auto split: sum.splits)
    show ?thesis
    proof (cases "evaluateArgs evm fuel args ev")
      case (Inl err)
      then show ?thesis using nz a' by auto
    next
      case ev1: (Inr ev1)
      show ?thesis
      proof (cases "e_functions ev1 f")
        case None
        then show ?thesis using nz ev1 a' by auto
      next
        case fd: (Some fd)
        show ?thesis
        proof (cases "length (m_values ev1) = length (parameters fd)")
          case False
          then show ?thesis using nz ev1 a' fd by auto
        next
          case len: True
          show ?thesis
          proof (cases fuel)
            case 0
            then show ?thesis using "4.prems" nz ev1 fd len by auto
          next
            case n: (Suc n)
            let ?callee = "newInterpreter (e_state ev1) (callArguments fd (m_values ev1)) (e_functions ev1)"
            have "interpretBlock evm n (body fd) ?callee \<noteq> Inl OutOfFuel"
              using "4.prems" nz ev1 fd len n by (auto split: sum.splits)
            then have b': "interpretBlock evm (n + k) (body fd) ?callee = interpretBlock evm n (body fd) ?callee"
              using "4.hyps"(2)[OF nz ev1 fd len n] by simp
            have fk: "fuel + k = Suc (n + k)" using n by simp
            have a'': "evaluateArgs evm (Suc (n + k)) args ev = Inr ev1" using a' ev1 fk by simp
            show ?thesis unfolding fk using nz ev1 a'' fd len n b' by auto
          qed
        qed
      qed
    qed
  qed
next
  case (7 evm fuel es ev)
  then show ?case
    by (auto simp: evaluateArgs.simps split: sum.splits)
next
  case (8 evm fuel e I)
  then show ?case
    by (auto simp: evaluate.simps split: sum.splits)
next
  case (9 evm fuel e I)
  then show ?case
    by (auto simp: evaluateMulti.simps split: sum.splits)
next
  case (20 evm fuel ss I)
  then show ?case
    by (auto simp: interpretBlock.simps split: sum.splits)
next
  case (23 evm fuel cond post b I)
  note w = whileLoop.simps[of evm fuel cond post b I]
  note wk = whileLoop.simps[of evm "fuel + k" cond post b I]
  have c': "evaluate evm (fuel + k) cond I = evaluate evm fuel cond I"
    using "23.hyps"(1) "23.prems" by (auto simp: w split: sum.splits)
  show ?case
  proof (cases "evaluate evm fuel cond I")
    case (Inl err)
    then show ?thesis using c' by (simp add: w wk)
  next
    case (Inr r)
    obtain v I1 where r: "r = (v, I1)" by (cases r)
    note ev = Inr[unfolded r]
    show ?thesis
    proof (cases "v = 0")
      case True
      then show ?thesis using c' ev by (simp add: w wk)
    next
      case nz: False
      have "interpretBlock evm fuel b I1 \<noteq> Inl OutOfFuel"
        using "23.prems" ev nz by (auto simp: w split: sum.splits)
      then have b': "interpretBlock evm (fuel + k) b I1 = interpretBlock evm fuel b I1"
        using "23.hyps"(2)[OF ev refl nz] by simp
      show ?thesis
      proof (cases "interpretBlock evm fuel b I1")
        case (Inl err)
        then show ?thesis using c' ev nz b' by (simp add: w wk)
      next
        case I2: (Inr I2)
        have "interpretBlock evm fuel post I2 \<noteq> Inl OutOfFuel"
          using "23.prems" ev nz I2 by (auto simp: w split: sum.splits)
        then have p': "interpretBlock evm (fuel + k) post I2 = interpretBlock evm fuel post I2"
          using "23.hyps"(3)[OF ev refl nz I2] by simp
        show ?thesis
        proof (cases "interpretBlock evm fuel post I2")
          case (Inl err)
          then show ?thesis using c' ev nz b' I2 p' by (simp add: w wk)
        next
          case I3: (Inr I3)
          show ?thesis
          proof (cases fuel)
            case 0
            then show ?thesis using "23.prems" ev nz I2 I3
              by (simp add: whileLoop.simps[of evm 0 cond post b I])
          next
            case n: (Suc n)
            have "whileLoop evm n cond post b I3 \<noteq> Inl OutOfFuel"
              using "23.prems" ev nz I2 I3 n by (simp add: whileLoop.simps[of evm "Suc n" cond post b I])
            then have l': "whileLoop evm (n + k) cond post b I3 = whileLoop evm n cond post b I3"
              using "23.hyps"(4)[OF ev refl nz I2 I3 n] by simp
            have fk: "fuel + k = Suc (n + k)" using n by simp
            have "whileLoop evm (Suc (n + k)) cond post b I = whileLoop evm n cond post b I3"
              using c' ev nz b' I2 p' I3 l' unfolding fk
              by (simp add: whileLoop.simps[of evm "Suc (n + k)" cond post b I])
            moreover have "whileLoop evm fuel cond post b I = whileLoop evm n cond post b I3"
              using ev nz I2 I3 n by (simp add: whileLoop.simps[of evm "Suc n" cond post b I])
            ultimately show ?thesis unfolding fk by simp
          qed
        qed
      qed
    qed
  qed
qed (auto split: sum.splits option.splits if_splits)

lemma settled_statement:
  "stateOf (visitStatement evm n s I) = x \<Longrightarrow> x \<noteq> Inl OutOfFuel \<Longrightarrow> n \<le> m \<Longrightarrow>
     stateOf (visitStatement evm m s I) = x"
proof -
  assume x: "stateOf (visitStatement evm n s I) = x" and ne: "x \<noteq> Inl OutOfFuel" and le: "n \<le> m"
  have "visitStatement evm n s I \<noteq> Inl OutOfFuel"
    using x ne by (auto simp: stateOf_def)
  then have "visitStatement evm (n + (m - n)) s I = visitStatement evm n s I"
    by (rule settled(6))
  then show ?thesis using x le by simp
qed

lemma settled_statements:
  "stateOf (walkVector evm n ss I) = x \<Longrightarrow> x \<noteq> Inl OutOfFuel \<Longrightarrow> n \<le> m \<Longrightarrow>
     stateOf (walkVector evm m ss I) = x"
proof -
  assume x: "stateOf (walkVector evm n ss I) = x" and ne: "x \<noteq> Inl OutOfFuel" and le: "n \<le> m"
  have "walkVector evm n ss I \<noteq> Inl OutOfFuel"
    using x ne by (auto simp: stateOf_def)
  then have "walkVector evm (n + (m - n)) ss I = walkVector evm n ss I"
    by (rule settled(7))
  then show ?thesis using x le by simp
qed

lemma settled_variable:
  "variableOf v (visitStatement evm n s I) = x \<Longrightarrow> x \<noteq> Inl OutOfFuel \<Longrightarrow> n \<le> m \<Longrightarrow>
     variableOf v (visitStatement evm m s I) = x"
proof -
  assume x: "variableOf v (visitStatement evm n s I) = x" and ne: "x \<noteq> Inl OutOfFuel" and le: "n \<le> m"
  have "visitStatement evm n s I \<noteq> Inl OutOfFuel"
    using x ne by (auto simp: variableOf_def)
  then have "visitStatement evm (n + (m - n)) s I = visitStatement evm n s I"
    by (rule settled(6))
  then show ?thesis using x le by simp
qed

section \<open>What statements do to the scopes and the variables\<close>

lemma closeScope_framesEmpty: "framesEmpty I \<Longrightarrow> closeScope I = Inr I' \<Longrightarrow> I' = I"
  by (cases "m_scopes I" rule: rev_cases) (auto simp: closeScope_def framesEmpty_def)

lemma declareVariables_dom:
  "declareVariables ns vs I = Inr I' \<Longrightarrow>
     m_scopes I' = m_scopes I \<and> dom (m_variables I) \<subseteq> dom (m_variables I')"
  by (induction ns vs I rule: declareVariables.induct) (auto split: if_splits)

lemma assignVariables_dom:
  "assignVariables ns vs I = Inr I' \<Longrightarrow>
     m_scopes I' = m_scopes I \<and> dom (m_variables I) \<subseteq> dom (m_variables I')"
  by (induction ns vs I rule: assignVariables.induct) (auto split: if_splits)

lemma registerFunctions_same:
  "m_scopes (registerFunctions ss I) = m_scopes I \<and>
   m_variables (registerFunctions ss I) = m_variables I \<and>
   m_state (registerFunctions ss I) = m_state I"
  by (induction ss I rule: registerFunctions.induct) auto

lemma grows_refl: "framesEmpty I \<Longrightarrow> grows I I"
  by (simp add: grows_def)

lemma grows_trans: "grows I J \<Longrightarrow> grows J K \<Longrightarrow> grows I K"
  by (auto simp: grows_def)

lemma grows_framesEmpty: "grows I I' \<Longrightarrow> framesEmpty I'"
  by (simp add: grows_def)

lemma evaluate_grows: "evaluate evm fuel e I = Inr (v, I1) \<Longrightarrow> framesEmpty I \<Longrightarrow> grows I I1"
  by (drule evaluate_same) (simp add: grows_def framesEmpty_def)

lemma evaluateMulti_grows: "evaluateMulti evm fuel e I = Inr (vs, I1) \<Longrightarrow> framesEmpty I \<Longrightarrow> grows I I1"
  by (drule evaluateMulti_same) (simp add: grows_def framesEmpty_def)

lemma declareVariables_grows: "declareVariables ns vs I = Inr I' \<Longrightarrow> framesEmpty I \<Longrightarrow> grows I I'"
  by (drule declareVariables_dom) (simp add: grows_def framesEmpty_def)

lemma assignVariables_grows: "assignVariables ns vs I = Inr I' \<Longrightarrow> framesEmpty I \<Longrightarrow> grows I I'"
  by (drule assignVariables_dom) (simp add: grows_def framesEmpty_def)

lemma closeScope_grows: "closeScope I = Inr I' \<Longrightarrow> framesEmpty I \<Longrightarrow> grows I I'"
  using closeScope_framesEmpty[of I I'] by (simp add: grows_def)

lemma openScope_grows: "framesEmpty I \<Longrightarrow> grows I (openScope I)"
  by (simp add: grows_def framesEmpty_def openScope_def)

lemma registerFunctions_grows: "framesEmpty I \<Longrightarrow> grows I (registerFunctions ss I)"
  by (simp add: grows_def framesEmpty_def registerFunctions_same)

text \<open>
  No statement ever puts a name into a frame, so no frame ever holds a name, closing a
  scope erases nothing, and a variable that is bound stays bound.
\<close>

lemma statements_grow:
  fixes evm :: "('i, 's) instructionInterpreter"
    and e :: "'i expression" and ev :: "('i, 's) expressionEvaluator"
    and I :: "('i, 's) interpreter" and es :: "'i expression list" and vs :: "u256 list"
  shows "True" and "True" and "True" and "True" and "True"
    and "framesEmpty I \<Longrightarrow> visitStatement evm fuel s I = Inr I' \<Longrightarrow> grows I I'"
    and "framesEmpty I \<Longrightarrow> walkVector evm fuel ss I = Inr I' \<Longrightarrow> grows I I'"
    and "framesEmpty I \<Longrightarrow> interpretBlock evm fuel ss I = Inr I' \<Longrightarrow> grows I I'"
    and "framesEmpty I \<Longrightarrow> switchCases evm fuel val cs I = Inr I' \<Longrightarrow> grows I I'"
    and "framesEmpty I \<Longrightarrow> whileLoop evm fuel c post b I = Inr I' \<Longrightarrow> grows I I'"
proof (induct evm fuel e ev and evm fuel es vs ev and evm fuel es ev and evm fuel e I and evm fuel e I
    and evm fuel s I and evm fuel ss I and evm fuel ss I and evm fuel val cs I and evm fuel c post b I
    arbitrary: and and and and and I' and I' and I' and I' and I'
    rule: visitExpression_evaluateArgsLoop_evaluateArgs_evaluate_evaluateMulti_visitStatement_walkVector_interpretBlock_switchCases_whileLoop.induct)
  case (10 evm fuel e I)
  then show ?case
    by (auto split: sum.splits dest: evaluateMulti_grows)
next
  case (11 evm fuel names v I)
  then show ?case
    by (auto split: sum.splits option.splits if_splits
        dest!: evaluateMulti_grows assignVariables_grows intro: grows_trans dest: grows_framesEmpty)
next
  case (12 evm fuel names v I)
  then show ?case
    by (auto split: sum.splits option.splits if_splits
        dest!: evaluateMulti_grows declareVariables_grows intro: grows_trans dest: grows_framesEmpty)
next
  case (13 evm fuel c b I)
  from "13.prems" obtain e w I1 where c: "c = Some e" and ev: "evaluate evm fuel e I = Inr (w, I1)"
    and r: "(if w \<noteq> 0 then interpretBlock evm fuel b I1 else Inr I1) = Inr I'"
    by (auto split: sum.splits option.splits)
  have g1: "grows I I1" using evaluate_grows[OF ev "13.prems"(1)] .
  show ?case
  proof (cases "w = 0")
    case True
    then show ?thesis using r g1 by simp
  next
    case False
    then have "grows I1 I'" using "13.hyps"(2)[OF c ev refl] False grows_framesEmpty[OF g1] r by simp
    then show ?thesis using g1 grows_trans by blast
  qed
next
  case (14 evm fuel ex cases I)
  from "14.prems" obtain e w I1 where c: "ex = Some e" and ev: "evaluate evm fuel e I = Inr (w, I1)"
    and r: "switchCases evm fuel w cases I1 = Inr I'"
    by (auto split: sum.splits option.splits)
  have g1: "grows I I1" using evaluate_grows[OF ev "14.prems"(1)] .
  have "grows I1 I'" using "14.hyps"(2)[OF c ev refl grows_framesEmpty[OF g1] r] .
  then show ?case using g1 grows_trans by blast
next
  case (16 evm fuel pre c post b I)
  from "16.prems" obtain e I1 I2 where c: "c = Some e"
    and w: "walkVector evm fuel pre (openScope I) = Inr I1"
    and l: "whileLoop evm fuel e post b I1 = Inr I2" and cl: "closeScope I2 = Inr I'"
    by (auto split: sum.splits option.splits)
  have g0: "grows I (openScope I)" using openScope_grows[OF "16.prems"(1)] .
  have g1: "grows (openScope I) I1" using "16.hyps"(1)[OF c grows_framesEmpty[OF g0] w] .
  have g2: "grows I1 I2" using "16.hyps"(2)[OF c w grows_framesEmpty[OF g1] l] .
  have g3: "grows I2 I'" using closeScope_grows[OF cl grows_framesEmpty[OF g2]] .
  show ?case using g0 g1 g2 g3 grows_trans by blast
next
  case (19 evm fuel s rest I)
  from "19.prems" obtain I1 where a: "visitStatement evm fuel s I = Inr I1"
    and b: "walkVector evm fuel rest I1 = Inr I'"
    by (auto split: sum.splits)
  have g1: "grows I I1" using "19.hyps"(1)[OF "19.prems"(1) a] .
  have g2: "grows I1 I'" using "19.hyps"(2)[OF a grows_framesEmpty[OF g1] b] .
  show ?case using g1 g2 grows_trans by blast
next
  case (20 evm fuel ss I)
  from "20.prems"(2) obtain I1 where
    a: "walkVector evm fuel ss (registerFunctions ss (openScope I)) = Inr I1"
    and cl: "closeScope I1 = Inr I'"
    by (auto simp: interpretBlock.simps split: sum.splits)
  have g0: "grows I (openScope I)" using openScope_grows[OF "20.prems"(1)] .
  have g0': "grows (openScope I) (registerFunctions ss (openScope I))"
    using registerFunctions_grows[OF grows_framesEmpty[OF g0]] .
  have g1: "grows (registerFunctions ss (openScope I)) I1"
    using "20.hyps"(1)[OF grows_framesEmpty[OF g0'] a] .
  have g2: "grows I1 I'" using closeScope_grows[OF cl grows_framesEmpty[OF g1]] .
  show ?case using g0 g0' g1 g2 grows_trans by blast
next
  case (22 evm fuel val g b rest I)
  show ?case
  proof (cases g)
    case None
    then show ?thesis using "22.hyps"(1)[OF None "22.prems"(1)] "22.prems"(2) by simp
  next
    case (Some ge)
    from "22.prems"(2) Some obtain w I1 where ev: "evaluate evm fuel ge I = Inr (w, I1)"
      and r: "(if w = val then interpretBlock evm fuel b I1 else switchCases evm fuel val rest I1) = Inr I'"
      by (auto split: sum.splits)
    have g1: "grows I I1" using evaluate_grows[OF ev "22.prems"(1)] .
    have "grows I1 I'"
    proof (cases "w = val")
      case True
      then show ?thesis using "22.hyps"(3)[OF Some ev refl] grows_framesEmpty[OF g1] r by simp
    next
      case False
      then show ?thesis using "22.hyps"(4)[OF Some ev refl] grows_framesEmpty[OF g1] r by simp
    qed
    then show ?thesis using g1 grows_trans by blast
  qed
next
  case (23 evm fuel cond post b I)
  from "23.prems"(2) obtain w I1 where ev: "evaluate evm fuel cond I = Inr (w, I1)"
    by (auto simp: whileLoop.simps[of evm fuel cond post b I] split: sum.splits)
  have g1: "grows I I1" using evaluate_grows[OF ev "23.prems"(1)] .
  show ?case
  proof (cases "w = 0")
    case True
    then show ?thesis using "23.prems"(2) ev g1 by (simp add: whileLoop.simps[of evm fuel cond post b I])
  next
    case False
    from "23.prems"(2) ev False obtain I2 I3 n where b: "interpretBlock evm fuel b I1 = Inr I2"
      and p: "interpretBlock evm fuel post I2 = Inr I3" and f: "fuel = Suc n"
      and l: "whileLoop evm n cond post b I3 = Inr I'"
      by (auto simp: whileLoop.simps[of evm fuel cond post b I] split: sum.splits nat.splits)
    have g2: "grows I1 I2" using "23.hyps"(2)[OF ev refl False grows_framesEmpty[OF g1] b] .
    have g3: "grows I2 I3" using "23.hyps"(3)[OF ev refl False b grows_framesEmpty[OF g2] p] .
    have g4: "grows I3 I'" using "23.hyps"(4)[OF ev refl False b p f grows_framesEmpty[OF g3] l] .
    show ?thesis using g1 g2 g3 g4 grows_trans by blast
  qed
qed (auto simp: grows_refl)

section \<open>Function calls\<close>

lemma bindReturnVariables_apply:
  "bindReturnVariables rs m x = (if x \<in> set rs then Some 0 else m x)"
  by (induction rs arbitrary: m) auto

lemma bindParameters_other: "x \<notin> set ps \<Longrightarrow> bindParameters ps vs m x = m x"
  by (induction ps vs m rule: bindParameters.induct) auto

lemma bindParameters_nth:
  "length ps = length vs \<Longrightarrow> i < length ps \<Longrightarrow> ps ! i \<notin> set (drop (Suc i) ps) \<Longrightarrow>
     bindParameters ps vs m (ps ! i) = Some (vs ! i)"
proof (induction ps vs m arbitrary: i rule: bindParameters.induct)
  case (1 p ps v vs m)
  show ?case
  proof (cases i)
    case 0
    then show ?thesis using "1.prems" by (simp add: bindParameters_other)
  next
    case (Suc j)
    then show ?thesis using "1.prems" by (simp add: "1.IH")
  qed
qed simp_all

lemma bindParameters_dom:
  "length ps = length vs \<Longrightarrow> dom (bindParameters ps vs m) = dom m \<union> set ps"
  by (induction ps vs m rule: bindParameters.induct) auto

lemma bindReturnVariables_dom: "dom (bindReturnVariables rs m) = dom m \<union> set rs"
  by (induction rs arbitrary: m) auto

lemma callArguments_dom:
  "length vs = length (parameters fd) \<Longrightarrow>
     dom (callArguments fd vs) = set (parameters fd) \<union> set (returnVariables fd)"
  by (simp add: callArguments_def bindReturnVariables_dom bindParameters_dom)

lemma callArguments_return: "r \<in> set (returnVariables fd) \<Longrightarrow> callArguments fd vs r = Some 0"
  by (simp add: callArguments_def bindReturnVariables_apply)

lemma callArguments_parameter:
  "length vs = length (parameters fd) \<Longrightarrow> i < length (parameters fd) \<Longrightarrow>
   parameters fd ! i \<notin> set (returnVariables fd) \<Longrightarrow>
   parameters fd ! i \<notin> set (drop (Suc i) (parameters fd)) \<Longrightarrow>
     callArguments fd vs (parameters fd ! i) = Some (vs ! i)"
  by (simp add: callArguments_def bindReturnVariables_apply bindParameters_nth)

lemma readReturnVariables_bound:
  "\<forall>r\<in>set rs. m_variables I r \<noteq> None \<Longrightarrow>
     \<exists>vs. readReturnVariables rs I = Inr vs \<and> map (m_variables I) rs = map Some vs"
  by (induction rs) auto

lemma framesEmpty_newInterpreter: "framesEmpty (newInterpreter s vars funs)"
  by (simp add: framesEmpty_def newInterpreter_def)

lemma functionCall_arity:
  assumes "e_functions ev f = Some fd" and "evaluateArgs evm fuel args ev = Inr ev1"
    and "length (m_values ev1) \<noteq> length (parameters fd)"
  shows "visitExpression evm fuel (FunctionCall f args) ev = Inl Fatal"
proof -
  have "sameBindings ev ev1"
    using evaluateArgs_sameBindings[OF _ assms(2)] visitExpression_sameBindings by blast
  then have "e_functions ev1 f = Some fd" using assms(1) by (simp add: sameBindings_def)
  then show ?thesis using assms by simp
qed

lemma functionCall_body:
  assumes "e_functions ev f = Some fd" and "evaluateArgs evm (Suc n) args ev = Inr ev1"
    and "length (m_values ev1) = length (parameters fd)"
  shows "case interpretBlock evm n (body fd)
              (newInterpreter (e_state ev1) (callArguments fd (m_values ev1)) (e_functions ev)) of
           Inl err \<Rightarrow> visitExpression evm (Suc n) (FunctionCall f args) ev = Inl err
         | Inr interp \<Rightarrow>
             (\<exists>rs. visitExpression evm (Suc n) (FunctionCall f args) ev =
                     Inr (ev1\<lparr>e_state := m_state interp, m_values := rs\<rparr>) \<and>
                   map (m_variables interp) (returnVariables fd) = map Some rs)"
proof -
  let ?callee = "newInterpreter (e_state ev1) (callArguments fd (m_values ev1)) (e_functions ev)"
  have "sameBindings ev ev1"
    using evaluateArgs_sameBindings[OF _ assms(2)] visitExpression_sameBindings by blast
  then have fs: "e_functions ev1 = e_functions ev" by (simp add: sameBindings_def)
  show ?thesis
  proof (cases "interpretBlock evm n (body fd) ?callee")
    case (Inl err)
    then show ?thesis using assms fs by simp
  next
    case (Inr interp)
    have "grows ?callee interp"
      using statements_grow(8)[OF framesEmpty_newInterpreter Inr] .
    then have "set (returnVariables fd) \<subseteq> dom (m_variables interp)"
      using callArguments_dom[OF assms(3)] by (auto simp: grows_def newInterpreter_def)
    then have "\<forall>r\<in>set (returnVariables fd). m_variables interp r \<noteq> None" by auto
    from readReturnVariables_bound[OF this] obtain rs where
      rs: "readReturnVariables (returnVariables fd) interp = Inr rs"
          "map (m_variables interp) (returnVariables fd) = map Some rs"
      by blast
    show ?thesis using assms fs Inr rs by simp
  qed
qed

text \<open>
  C3. A function call evaluates its arguments; when the number of values differs from the
  number of parameters of the callee, the call is fatal. Otherwise the body of the callee
  runs in a new interpreter that shares the machine state and the functions of the caller
  and whose variables are exactly the parameters and the return variables: every return
  variable is zero, and every parameter (whose name is neither a return variable nor
  that of a later parameter) has the value of the argument at its position. An error of
  the body is the error of the call; when the body finishes, the values of the call are
  those of the return variables in the finished interpreter, in declared order, and they
  can always be read. On the sample machine the recursive \<^verbatim>\<open>f(5)\<close> returns 120 and the
  mutually recursive \<^verbatim>\<open>even(4)\<close> returns 1, whenever the fuel allows five nested calls.
\<close>

theorem function_call:
  assumes "e_functions ev f = Some fd" and "evaluateArgs evm (Suc n) args ev = Inr ev1"
  shows "(length (m_values ev1) \<noteq> length (parameters fd) \<longrightarrow>
            visitExpression evm (Suc n) (FunctionCall f args) ev = Inl Fatal) \<and>
         (length (m_values ev1) = length (parameters fd) \<longrightarrow>
            dom (callArguments fd (m_values ev1)) = set (parameters fd) \<union> set (returnVariables fd) \<and>
            (\<forall>r\<in>set (returnVariables fd). callArguments fd (m_values ev1) r = Some 0) \<and>
            (\<forall>i<length (parameters fd).
                parameters fd ! i \<notin> set (returnVariables fd) \<longrightarrow>
                parameters fd ! i \<notin> set (drop (Suc i) (parameters fd)) \<longrightarrow>
                callArguments fd (m_values ev1) (parameters fd ! i) = Some (m_values ev1 ! i)) \<and>
            (case interpretBlock evm n (body fd)
                    (newInterpreter (e_state ev1) (callArguments fd (m_values ev1)) (e_functions ev)) of
               Inl err \<Rightarrow> visitExpression evm (Suc n) (FunctionCall f args) ev = Inl err
             | Inr interp \<Rightarrow>
                 (\<exists>rs. visitExpression evm (Suc n) (FunctionCall f args) ev =
                         Inr (ev1\<lparr>e_state := m_state interp, m_values := rs\<rparr>) \<and>
                       map (m_variables interp) (returnVariables fd) = map Some rs))) \<and>
         (5 \<le> fuel \<longrightarrow>
            valuesOf (evaluateMulti sampleMachine fuel (FunctionCall ''f'' [Literal Number ''5'']) caller) = Inr [120] \<and>
            valuesOf (evaluateMulti sampleMachine fuel (FunctionCall ''even'' [Literal Number ''4'']) caller) = Inr [1])"
proof -
  have a: "length (m_values ev1) \<noteq> length (parameters fd) \<longrightarrow>
            visitExpression evm (Suc n) (FunctionCall f args) ev = Inl Fatal"
    using functionCall_arity[OF assms] by simp
  have b: "length (m_values ev1) = length (parameters fd) \<longrightarrow>
      (case interpretBlock evm n (body fd)
                    (newInterpreter (e_state ev1) (callArguments fd (m_values ev1)) (e_functions ev)) of
               Inl err \<Rightarrow> visitExpression evm (Suc n) (FunctionCall f args) ev = Inl err
             | Inr interp \<Rightarrow>
                 (\<exists>rs. visitExpression evm (Suc n) (FunctionCall f args) ev =
                         Inr (ev1\<lparr>e_state := m_state interp, m_values := rs\<rparr>) \<and>
                       map (m_variables interp) (returnVariables fd) = map Some rs))"
    using functionCall_body[OF assms] by simp
  have "valuesOf (evaluateMulti sampleMachine 5 (FunctionCall ''f'' [Literal Number ''5'']) caller) = Inr [120]"
    by code_simp
  then have c: "5 \<le> fuel \<longrightarrow>
      valuesOf (evaluateMulti sampleMachine fuel (FunctionCall ''f'' [Literal Number ''5'']) caller) = Inr [120]"
    using valuesOf_more_fuel by blast
  have "valuesOf (evaluateMulti sampleMachine 5 (FunctionCall ''even'' [Literal Number ''4'']) caller) = Inr [1]"
    by code_simp
  then have d: "5 \<le> fuel \<longrightarrow>
      valuesOf (evaluateMulti sampleMachine fuel (FunctionCall ''even'' [Literal Number ''4'']) caller) = Inr [1]"
    using valuesOf_more_fuel by blast
  have e: "length (m_values ev1) = length (parameters fd) \<longrightarrow>
            dom (callArguments fd (m_values ev1)) = set (parameters fd) \<union> set (returnVariables fd)"
    using callArguments_dom[of "m_values ev1" fd] by simp
  have f: "\<forall>r\<in>set (returnVariables fd). callArguments fd (m_values ev1) r = Some 0"
    using callArguments_return[of _ fd "m_values ev1"] by blast
  have g: "length (m_values ev1) = length (parameters fd) \<longrightarrow> (\<forall>i<length (parameters fd).
                parameters fd ! i \<notin> set (returnVariables fd) \<longrightarrow>
                parameters fd ! i \<notin> set (drop (Suc i) (parameters fd)) \<longrightarrow>
                callArguments fd (m_values ev1) (parameters fd ! i) = Some (m_values ev1 ! i))"
    using callArguments_parameter[of "m_values ev1" fd] by blast
  from a b c d e f g show ?thesis by blast
qed

text \<open>
  The call \<^verbatim>\<open>f(1)\<close> from the sample caller: one value for one parameter; the body runs
  with \<^verbatim>\<open>n = 1\<close> and \<^verbatim>\<open>r = 0\<close>, executes \<^verbatim>\<open>lt(1, 2)\<close> and leaves \<^verbatim>\<open>r = 1\<close>.
\<close>

theorem function_call_witness:
  "e_functions (newEvaluator caller) ''f'' = Some factorialDefinition \<and>
   evaluateArgs sampleMachine (Suc 0) [Literal Number ''1''] (newEvaluator caller) =
     Inr ((newEvaluator caller)\<lparr>m_values := [1]\<rparr>) \<and>
   visitExpression sampleMachine (Suc 0) (FunctionCall ''f'' [Literal Number ''1'']) (newEvaluator caller) =
     Inr ((newEvaluator caller)\<lparr>m_values := [1], e_state := [(LT, [1, 2])], m_values := [1]\<rparr>)"
proof -
  let ?ev = "newEvaluator caller"
  let ?ev1 = "?ev\<lparr>m_values := [1]\<rparr>"
  let ?r = "interpretBlock sampleMachine 0 (body factorialDefinition)
      (newInterpreter (e_state ?ev1) (callArguments factorialDefinition (m_values ?ev1)) (e_functions ?ev))"
  have h1: "e_functions ?ev ''f'' = Some factorialDefinition"
    by (simp add: newEvaluator_def caller_def factorial_def factorialDefinition_def evenOdd_def
        newInterpreter_def)
  have h2: "evaluateArgs sampleMachine (Suc 0) [Literal Number ''1''] ?ev = Inr ?ev1"
    by (simp add: evaluateArgs.simps literalValue_def u256_of_string_def digitOfChar_def
        value_ev_def setValue_def)
  have len: "length (m_values ?ev1) = length (parameters factorialDefinition)"
    by (simp add: factorialDefinition_def)
  have ok: "\<not> isl ?r" by code_simp
  have st: "m_state (projr ?r) = [(LT, [1, 2])]" by code_simp
  have rv: "m_variables (projr ?r) ''r'' = Some 1" by code_simp
  obtain x where x: "?r = Inr x" using ok by (cases ?r) auto
  have st': "m_state x = [(LT, [1, 2])]" using st unfolding x by (simp only: sum.sel)
  have rv': "m_variables x ''r'' = Some 1" using rv unfolding x by (simp only: sum.sel)
  note body = function_call[OF h1 h2, THEN conjunct2, THEN conjunct1, rule_format, OF len,
      THEN conjunct2, THEN conjunct2, THEN conjunct2]
  from body obtain rs where
    v: "visitExpression sampleMachine (Suc 0) (FunctionCall ''f'' [Literal Number ''1'']) ?ev =
          Inr (?ev1\<lparr>e_state := m_state x, m_values := rs\<rparr>)"
    and m: "map (m_variables x) (returnVariables factorialDefinition) = map Some rs"
    unfolding x by (simp only: sum.case) blast
  from m rv' have "rs = [1]" by (cases rs) (simp_all add: factorialDefinition_def)
  with v st' have "visitExpression sampleMachine (Suc 0) (FunctionCall ''f'' [Literal Number ''1'']) ?ev =
          Inr (?ev1\<lparr>e_state := [(LT, [1, 2])], m_values := [1]\<rparr>)"
    by (simp only:)
  with h1 h2 show ?thesis by blast
qed



section \<open>Declarations and assignments\<close>

lemma declareVariables_zero:
  "declareVariables names (replicate (length names) 0) I =
     (if distinct names \<and> (\<forall>n\<in>set names. m_variables I n = None)
      then Inr (I\<lparr>m_variables := (\<lambda>x. if x \<in> set names then Some 0 else m_variables I x)\<rparr>)
      else Inl Fatal)"
proof (induction names arbitrary: I)
  case Nil
  then show ?case by simp
next
  case (Cons n ns)
  let ?I = "I\<lparr>m_variables := (m_variables I)(n \<mapsto> 0)\<rparr>"
  show ?case
  proof (cases "m_variables I n = None")
    case False
    then show ?thesis by auto
  next
    case True
    have c: "(distinct ns \<and> (\<forall>x\<in>set ns. m_variables ?I x = None)) =
             (distinct (n # ns) \<and> (\<forall>x\<in>set (n # ns). m_variables I x = None))"
      using True by auto
    have r: "?I\<lparr>m_variables := (\<lambda>x. if x \<in> set ns then Some 0 else m_variables ?I x)\<rparr> =
             I\<lparr>m_variables := (\<lambda>x. if x \<in> set (n # ns) then Some 0 else m_variables I x)\<rparr>"
      by (auto simp: fun_eq_iff)
    have "declareVariables (n # ns) (replicate (length (n # ns)) 0) I =
          declareVariables ns (replicate (length ns) 0) ?I"
      using True by simp
    also have "\<dots> = (if distinct ns \<and> (\<forall>x\<in>set ns. m_variables ?I x = None)
      then Inr (?I\<lparr>m_variables := (\<lambda>x. if x \<in> set ns then Some 0 else m_variables ?I x)\<rparr>)
      else Inl Fatal)"
      by (rule Cons.IH)
    finally show ?thesis unfolding c r .
  qed
qed

lemma declareVariables_bound:
  "length vs = length names \<Longrightarrow> n \<in> set names \<Longrightarrow> m_variables I n \<noteq> None \<Longrightarrow>
     declareVariables names vs I = Inl Fatal"
  by (induction names vs I rule: declareVariables.induct) auto

lemma assignVariables_unbound:
  "length vs = length names \<Longrightarrow> n \<in> set names \<Longrightarrow> m_variables I n = None \<Longrightarrow>
     assignVariables names vs I = Inl Fatal"
proof (induction names vs I rule: assignVariables.induct)
  case (1 p ps v vs I)
  show ?case
  proof (cases "m_variables I p = None")
    case True
    then show ?thesis by simp
  next
    case False
    with "1.prems" have ne: "n \<noteq> p" and mem: "n \<in> set ps" by auto
    have "assignVariables ps vs (I\<lparr>m_variables := (m_variables I)(p \<mapsto> v)\<rparr>) = Inl Fatal"
      using "1.IH"[OF False] "1.prems" ne mem by simp
    then show ?thesis using False by simp
  qed
qed simp_all

text \<open>
  C7. A declaration without an initializer binds every declared name to zero. When the
  names are distinct and none is bound yet, the declaration succeeds, every declared name
  reads as zero afterwards and no other variable changes; and whenever the declaration
  succeeds, every declared name reads as zero.
\<close>

theorem declaration_without_initializer:
  "(distinct names \<and> (\<forall>n\<in>set names. m_variables I n = None) \<longrightarrow>
      (\<exists>I'. visitStatement evm fuel (VariableDeclaration names None) I = Inr I' \<and>
            (\<forall>n\<in>set names. m_variables I' n = Some 0) \<and>
            (\<forall>x. x \<notin> set names \<longrightarrow> m_variables I' x = m_variables I x))) \<and>
   (visitStatement evm fuel (VariableDeclaration names None) I = Inr I'' \<longrightarrow>
      (\<forall>n\<in>set names. m_variables I'' n = Some 0))"
proof -
  have eq: "visitStatement evm fuel (VariableDeclaration names None) I =
      declareVariables names (replicate (length names) 0) I"
    by simp
  show ?thesis unfolding eq declareVariables_zero by (auto split: if_splits)
qed

theorem declaration_without_initializer_witness:
  "variableOf ''x'' (visitStatement sampleMachine 0 (VariableDeclaration [''x'', ''y''] None) emptyInterpreter) = Inr (Some 0) \<and>
   variableOf ''y'' (visitStatement sampleMachine 0 (VariableDeclaration [''x'', ''y''] None) emptyInterpreter) = Inr (Some 0)"
proof -
  have h: "distinct [''x'', ''y''] \<and> (\<forall>n\<in>set [''x'', ''y'']. m_variables emptyInterpreter n = None)"
    by (simp add: emptyInterpreter_def newInterpreter_def)
  from declaration_without_initializer[of "[''x'', ''y'']" emptyInterpreter sampleMachine 0, THEN conjunct1, rule_format, OF h]
  obtain I' where "visitStatement sampleMachine 0 (VariableDeclaration [''x'', ''y''] None) emptyInterpreter = Inr I'"
    and "\<forall>n\<in>set [''x'', ''y'']. m_variables I' n = Some 0"
    by blast
  then show ?thesis by (simp add: variableOf_def)
qed

text \<open>
  C4, as the code has it. Declaring a name that is already bound as a variable is a fatal
  error, whatever scope bound it; and assigning to a name that is not bound as a variable
  is a fatal error. In both cases the right-hand side is evaluated first, and its own
  error, if any, is the result. The declaration looks at the variables only.
\<close>

theorem declaration_and_assignment_checks:
  "(n \<in> set names \<and> m_variables I n \<noteq> None \<longrightarrow>
      visitStatement evm fuel (VariableDeclaration names None) I = Inl Fatal \<and>
      (case evaluateMulti evm fuel e I of
         Inl err \<Rightarrow> visitStatement evm fuel (VariableDeclaration names (Some e)) I = Inl err
       | Inr r \<Rightarrow> visitStatement evm fuel (VariableDeclaration names (Some e)) I = Inl Fatal)) \<and>
   (n \<in> set names \<and> m_variables I n = None \<longrightarrow>
      visitStatement evm fuel (Assignment names None) I = Inl Fatal \<and>
      (case evaluateMulti evm fuel e I of
         Inl err \<Rightarrow> visitStatement evm fuel (Assignment names (Some e)) I = Inl err
       | Inr r \<Rightarrow> visitStatement evm fuel (Assignment names (Some e)) I = Inl Fatal))"
proof -
  have d0: "n \<in> set names \<Longrightarrow> m_variables I n \<noteq> None \<Longrightarrow>
      visitStatement evm fuel (VariableDeclaration names None) I = Inl Fatal"
    by (simp add: declareVariables_bound)
  have d1: "n \<in> set names \<Longrightarrow> m_variables I n \<noteq> None \<Longrightarrow>
      (case evaluateMulti evm fuel e I of
         Inl err \<Rightarrow> visitStatement evm fuel (VariableDeclaration names (Some e)) I = Inl err
       | Inr r \<Rightarrow> visitStatement evm fuel (VariableDeclaration names (Some e)) I = Inl Fatal)"
  proof (cases "evaluateMulti evm fuel e I")
    case (Inl err)
    then show ?thesis by simp
  next
    case (Inr r)
    assume n: "n \<in> set names" "m_variables I n \<noteq> None"
    obtain vs I1 where r: "r = (vs, I1)" by (cases r)
    have "m_variables I1 = m_variables I" using evaluateMulti_same Inr r by blast
    then show ?thesis using Inr r n by (simp add: declareVariables_bound)
  qed
  have a1: "n \<in> set names \<Longrightarrow> m_variables I n = None \<Longrightarrow>
      (case evaluateMulti evm fuel e I of
         Inl err \<Rightarrow> visitStatement evm fuel (Assignment names (Some e)) I = Inl err
       | Inr r \<Rightarrow> visitStatement evm fuel (Assignment names (Some e)) I = Inl Fatal)"
  proof (cases "evaluateMulti evm fuel e I")
    case (Inl err)
    then show ?thesis by simp
  next
    case (Inr r)
    assume n: "n \<in> set names" "m_variables I n = None"
    obtain vs I1 where r: "r = (vs, I1)" by (cases r)
    have "m_variables I1 = m_variables I" using evaluateMulti_same Inr r by blast
    then show ?thesis using Inr r n by (simp add: assignVariables_unbound)
  qed
  show ?thesis using d0 d1 a1 by simp
qed

text \<open>
  Declaring \<^verbatim>\<open>x\<close> again, and assigning to the undeclared \<^verbatim>\<open>y\<close>, in an interpreter that
  binds \<^verbatim>\<open>x\<close> only.
\<close>

theorem declaration_and_assignment_checks_witness:
  "visitStatement sampleMachine 0 (VariableDeclaration [''x''] None)
      (emptyInterpreter\<lparr>m_variables := [''x'' \<mapsto> 1]\<rparr>) = Inl Fatal \<and>
   visitStatement sampleMachine 0 (VariableDeclaration [''x''] (Some (Literal Number ''2'')))
      (emptyInterpreter\<lparr>m_variables := [''x'' \<mapsto> 1]\<rparr>) = Inl Fatal \<and>
   visitStatement sampleMachine 0 (Assignment [''y''] (Some (Literal Number ''2'')))
      (emptyInterpreter\<lparr>m_variables := [''x'' \<mapsto> 1]\<rparr>) = Inl Fatal"
proof -
  let ?I = "emptyInterpreter\<lparr>m_variables := [''x'' \<mapsto> 1]\<rparr>"
  let ?e = "Literal Number ''2'' :: sampleInstruction expression"
  have x: "''x'' \<in> set [''x''] \<and> m_variables ?I ''x'' \<noteq> None" by simp
  have y: "''y'' \<in> set [''y''] \<and> m_variables ?I ''y'' = None" by simp
  have ok: "\<not> isl (evaluateMulti sampleMachine 0 ?e ?I)" by code_simp
  then obtain r where r: "evaluateMulti sampleMachine 0 ?e ?I = Inr r"
    by (cases "evaluateMulti sampleMachine 0 ?e ?I") auto
  note d = declaration_and_assignment_checks[of "''x''" "[''x'']" ?I sampleMachine 0 ?e,
      THEN conjunct1, rule_format, OF x]
  note a = declaration_and_assignment_checks[of "''y''" "[''y'']" ?I sampleMachine 0 ?e,
      THEN conjunct2, rule_format, OF y]
  from d a show ?thesis unfolding r by (simp only: sum.case)
qed

text \<open>
  C4, as the claim has it, fails: in \<^verbatim>\<open>{ function f() { } let f }\<close> the name \<^verbatim>\<open>f\<close> is a
  visible function when it is declared as a variable, and the declaration and the block
  succeed.
\<close>

theorem declaring_a_function_name_succeeds:
  "m_functions (registerFunctions shadowing (openScope emptyInterpreter)) ''f'' \<noteq> None \<and>
   variableOf ''f'' (visitStatement sampleMachine 0 (VariableDeclaration [''f''] None)
      (registerFunctions shadowing (openScope emptyInterpreter))) = Inr (Some 0) \<and>
   variableOf ''f'' (interpretBlock sampleMachine 0 shadowing emptyInterpreter) = Inr (Some 0)"
  by code_simp

section \<open>Switch\<close>

lemma evaluate_Number:
  "u256_of_string s = Some w \<Longrightarrow> evaluate evm fuel (Literal Number s) I = Inr (w, I)"
  by (simp add: evaluate.simps literalValue_def newEvaluator_def afterEvaluation_def setValue_def
      value_ev_def)

lemma switchCases_pass:
  "passCases evm fuel val pre I1 = Some I2 \<Longrightarrow>
     switchCases evm fuel val (pre @ rest) I1 = switchCases evm fuel val rest I2"
  by (induction evm fuel val pre I1 rule: passCases.induct) (auto split: sum.splits if_splits)

text \<open>
  C5. A switch evaluates its expression to a single value and then goes through the
  cases in their order. Let \<open>pre\<close> be cases that all have a guard, whose guards,
  evaluated in order, all differ from the value (\<open>passCases\<close>). If the cases end there,
  nothing is executed. If the next case has no guard (the default, which has to be last),
  exactly its body is executed. If the guard of the next case evaluates to the value,
  exactly its body is executed, in the state its guard left. In both cases the cases
  \<open>post\<close> behind it play no part: there is no fallthrough. On the sample machine, the
  switch over \<open>fourCases\<close> with value 5 executes the first of the two cases guarded by 5
  and nothing else, and with value 9 it executes the default, once.
\<close>

theorem switch_executes_first_match:
  assumes "evaluate evm fuel e I = Inr (val, I1)" and "passCases evm fuel val pre I1 = Some I2"
  shows "visitStatement evm fuel (Switch (Some e) pre) I = Inr I2 \<and>
         visitStatement evm fuel (Switch (Some e) (pre @ Case None b # post)) I =
           interpretBlock evm fuel b I2 \<and>
         (evaluate evm fuel g I2 = Inr (val, I3) \<longrightarrow>
            visitStatement evm fuel (Switch (Some e) (pre @ Case (Some g) b # post)) I =
              interpretBlock evm fuel b I3) \<and>
         stateOf (visitStatement sampleMachine n (Switch (Some (Literal Number ''5'')) fourCases)
            emptyInterpreter) = Inr [(POP, [5])] \<and>
         stateOf (visitStatement sampleMachine n (Switch (Some (Literal Number ''9'')) fourCases)
            emptyInterpreter) = Inr [(POP, [0])]"
proof -
  have a: "visitStatement evm fuel (Switch (Some e) pre) I = Inr I2"
    using assms switchCases_pass[of evm fuel val pre I1 I2 "[]"] by simp
  have b: "visitStatement evm fuel (Switch (Some e) (pre @ Case None b # post)) I =
           interpretBlock evm fuel b I2"
    using assms switchCases_pass[of evm fuel val pre I1 I2 "Case None b # post"] by simp
  have c: "evaluate evm fuel g I2 = Inr (val, I3) \<longrightarrow>
            visitStatement evm fuel (Switch (Some e) (pre @ Case (Some g) b # post)) I =
              interpretBlock evm fuel b I3"
    using assms switchCases_pass[of evm fuel val pre I1 I2 "Case (Some g) b # post"] by simp
  have "stateOf (visitStatement sampleMachine 0 (Switch (Some (Literal Number ''5'')) fourCases)
            emptyInterpreter) = Inr [(POP, [5])]"
    by code_simp
  then have d: "stateOf (visitStatement sampleMachine n (Switch (Some (Literal Number ''5'')) fourCases)
            emptyInterpreter) = Inr [(POP, [5])]"
    by (rule stateOf_more_fuel) simp
  have "stateOf (visitStatement sampleMachine 0 (Switch (Some (Literal Number ''9'')) fourCases)
            emptyInterpreter) = Inr [(POP, [0])]"
    by code_simp
  then have e: "stateOf (visitStatement sampleMachine n (Switch (Some (Literal Number ''9'')) fourCases)
            emptyInterpreter) = Inr [(POP, [0])]"
    by (rule stateOf_more_fuel) simp
  from a b c d e show ?thesis by blast
qed

text \<open>
  \<^verbatim>\<open>switch 5 case 1 { pop(1) } case 5 { pop(5) } case 5 { pop(55) } default { pop(0) }\<close>:
  the case guarded by 1 is passed, the first case guarded by 5 is executed.
\<close>

theorem switch_executes_first_match_witness:
  "evaluate sampleMachine 0 (Literal Number ''5'') emptyInterpreter = Inr (5, emptyInterpreter) \<and>
   passCases sampleMachine 0 5 (take 1 fourCases) emptyInterpreter = Some emptyInterpreter \<and>
   visitStatement sampleMachine 0 (Switch (Some (Literal Number ''5'')) fourCases) emptyInterpreter =
     interpretBlock sampleMachine 0
       [ExpressionStatement (FunctionalInstruction POP [Literal Number ''5''])] emptyInterpreter"
proof -
  let ?g = "Literal Number ''5'' :: sampleInstruction expression"
  let ?b = "[ExpressionStatement (FunctionalInstruction POP [Literal Number ''5''])] :: sampleInstruction statement list"
  have five: "u256_of_string ''5'' = Some 5"
    by (simp add: u256_of_string_def digitOfChar_def)
  have one: "u256_of_string ''1'' = Some 1"
    by (simp add: u256_of_string_def digitOfChar_def)
  have h1: "evaluate sampleMachine 0 ?g emptyInterpreter = Inr (5, emptyInterpreter)"
    using evaluate_Number[OF five] .
  have h2: "passCases sampleMachine 0 5 (take 1 fourCases) emptyInterpreter = Some emptyInterpreter"
    by (simp add: fourCases_def evaluate_Number[OF one])
  have split: "fourCases = take 1 fourCases @ Case (Some ?g) ?b # drop 2 fourCases"
    by (simp add: fourCases_def)
  note m = switch_executes_first_match[OF h1 h2, where g = ?g and ?I3.0 = emptyInterpreter
        and b = ?b and post = "drop 2 fourCases",
      THEN conjunct2, THEN conjunct2, THEN conjunct1, rule_format, OF h1]
  have "visitStatement sampleMachine 0 (Switch (Some ?g) fourCases) emptyInterpreter =
     interpretBlock sampleMachine 0 ?b emptyInterpreter"
    using m by (subst split) simp
  with h1 h2 show ?thesis by blast
qed

section \<open>For loops\<close>

text \<open>
  C6 does not hold of this code, by the defect of C2: no name is ever put into a frame,
  so the \<^verbatim>\<open>closeScope\<close> at the end of a for loop, like the one at the end of a block,
  erases nothing. The loop \<open>countToThree\<close> of the claim does run its body three times,
  with \<^verbatim>\<open>i\<close> being 0, 1 and 2 and \<^verbatim>\<open>j\<close> being 1; but after the loop \<^verbatim>\<open>i\<close> and \<^verbatim>\<open>j\<close>
  are still bound, so the scope of the initializer has not closed, and running the same
  loop a second time is fatal at the declaration of \<^verbatim>\<open>i\<close>. And the loop
  \<open>declaresInBody\<close>, whose body block declares \<^verbatim>\<open>t\<close>, is fatal in its second iteration,
  where \<^verbatim>\<open>t\<close> is still bound, although its condition is non-zero twice. All of this
  holds whenever the fuel allows the iterations.
\<close>

theorem for_loop_scope_stays_open:
  "(3 \<le> k \<longrightarrow>
      stateOf (visitStatement sampleMachine k countToThree emptyInterpreter) =
        Inr [(LT, [0, 3]), (MUL, [0, 1]), (POP, [0]), (ADD, [0, 1]),
             (LT, [1, 3]), (MUL, [1, 1]), (POP, [1]), (ADD, [1, 1]),
             (LT, [2, 3]), (MUL, [2, 1]), (POP, [2]), (ADD, [2, 1]),
             (LT, [3, 3])] \<and>
      variableOf ''i'' (visitStatement sampleMachine k countToThree emptyInterpreter) = Inr (Some 3) \<and>
      variableOf ''j'' (visitStatement sampleMachine k countToThree emptyInterpreter) = Inr (Some 1) \<and>
      stateOf (walkVector sampleMachine k [countToThree, countToThree] emptyInterpreter) = Inl Fatal) \<and>
   (1 \<le> k \<longrightarrow>
      stateOf (visitStatement sampleMachine k declaresInBody emptyInterpreter) = Inl Fatal)"
proof -
  have ne: "\<And>x :: sampleState. Inr x \<noteq> (Inl OutOfFuel :: error + sampleState)" by simp
  have nf: "(Inl Fatal :: error + sampleState) \<noteq> Inl OutOfFuel" by simp
  have nv: "\<And>x :: u256 option. Inr x \<noteq> (Inl OutOfFuel :: error + u256 option)" by simp
  have "stateOf (visitStatement sampleMachine 3 countToThree emptyInterpreter) =
        Inr [(LT, [0, 3]), (MUL, [0, 1]), (POP, [0]), (ADD, [0, 1]),
             (LT, [1, 3]), (MUL, [1, 1]), (POP, [1]), (ADD, [1, 1]),
             (LT, [2, 3]), (MUL, [2, 1]), (POP, [2]), (ADD, [2, 1]),
             (LT, [3, 3])]"
    by code_simp
  from settled_statement[OF this ne, of k]
  have a: "3 \<le> k \<Longrightarrow> stateOf (visitStatement sampleMachine k countToThree emptyInterpreter) =
        Inr [(LT, [0, 3]), (MUL, [0, 1]), (POP, [0]), (ADD, [0, 1]),
             (LT, [1, 3]), (MUL, [1, 1]), (POP, [1]), (ADD, [1, 1]),
             (LT, [2, 3]), (MUL, [2, 1]), (POP, [2]), (ADD, [2, 1]),
             (LT, [3, 3])]" .
  have "variableOf ''i'' (visitStatement sampleMachine 3 countToThree emptyInterpreter) = Inr (Some 3)"
    by code_simp
  from settled_variable[OF this nv, of k]
  have b: "3 \<le> k \<Longrightarrow>
      variableOf ''i'' (visitStatement sampleMachine k countToThree emptyInterpreter) = Inr (Some 3)" .
  have "variableOf ''j'' (visitStatement sampleMachine 3 countToThree emptyInterpreter) = Inr (Some 1)"
    by code_simp
  from settled_variable[OF this nv, of k]
  have c: "3 \<le> k \<Longrightarrow>
      variableOf ''j'' (visitStatement sampleMachine k countToThree emptyInterpreter) = Inr (Some 1)" .
  have "stateOf (walkVector sampleMachine 3 [countToThree, countToThree] emptyInterpreter) = Inl Fatal"
    by code_simp
  from settled_statements[OF this nf, of k]
  have d: "3 \<le> k \<Longrightarrow>
      stateOf (walkVector sampleMachine k [countToThree, countToThree] emptyInterpreter) = Inl Fatal" .
  have "stateOf (visitStatement sampleMachine 1 declaresInBody emptyInterpreter) = Inl Fatal"
    by code_simp
  from settled_statement[OF this nf, of k]
  have e: "1 \<le> k \<Longrightarrow>
      stateOf (visitStatement sampleMachine k declaresInBody emptyInterpreter) = Inl Fatal" .
  show ?thesis
  proof (intro conjI impI)
    assume "3 \<le> k"
    then show "stateOf (visitStatement sampleMachine k countToThree emptyInterpreter) =
        Inr [(LT, [0, 3]), (MUL, [0, 1]), (POP, [0]), (ADD, [0, 1]),
             (LT, [1, 3]), (MUL, [1, 1]), (POP, [1]), (ADD, [1, 1]),
             (LT, [2, 3]), (MUL, [2, 1]), (POP, [2]), (ADD, [2, 1]),
             (LT, [3, 3])]" by (rule a)
  next
    assume "3 \<le> k"
    then show "variableOf ''i'' (visitStatement sampleMachine k countToThree emptyInterpreter) = Inr (Some 3)"
      by (rule b)
  next
    assume "3 \<le> k"
    then show "variableOf ''j'' (visitStatement sampleMachine k countToThree emptyInterpreter) = Inr (Some 1)"
      by (rule c)
  next
    assume "3 \<le> k"
    then show "stateOf (walkVector sampleMachine k [countToThree, countToThree] emptyInterpreter) = Inl Fatal"
      by (rule d)
  next
    assume "1 \<le> k"
    then show "stateOf (visitStatement sampleMachine k declaresInBody emptyInterpreter) = Inl Fatal"
      by (rule e)
  qed
qed

text \<open>With fuel 3: the second run of \<open>countToThree\<close>, and \<open>declaresInBody\<close>, are fatal.\<close>

theorem for_loop_scope_stays_open_witness:
  "variableOf ''i'' (visitStatement sampleMachine 3 countToThree emptyInterpreter) = Inr (Some 3) \<and>
   variableOf ''j'' (visitStatement sampleMachine 3 countToThree emptyInterpreter) = Inr (Some 1) \<and>
   stateOf (walkVector sampleMachine 3 [countToThree, countToThree] emptyInterpreter) = Inl Fatal \<and>
   stateOf (visitStatement sampleMachine 3 declaresInBody emptyInterpreter) = Inl Fatal"
proof -
  have three: "(3::nat) \<le> 3" and one: "(1::nat) \<le> 3" by simp_all
  note t = for_loop_scope_stays_open[of 3]
  note a = t[THEN conjunct1, rule_format, OF three]
  note e = t[THEN conjunct2, rule_format, OF one]
  from a e show ?thesis by (simp only:)
qed

section \<open>String literals\<close>

lemma fromBigEndian_snoc: "fromBigEndian (bs @ [b]) = push_bit 8 (fromBigEndian bs) OR ucast b"
  by (simp add: fromBigEndian_def)

lemma bit_byte: "bit (x :: 8 word) k \<Longrightarrow> k < 8"
  using bit_imp_le_length[of x k] by simp

lemma bit_fromBigEndian:
  "length bs \<le> 32 \<Longrightarrow>
     bit (fromBigEndian bs) k \<longleftrightarrow> k < 8 * length bs \<and> bit (bs ! (length bs - 1 - k div 8)) (k mod 8)"
proof (induction bs arbitrary: k rule: rev_induct)
  case Nil
  then show ?case by (simp add: fromBigEndian_def)
next
  case (snoc b bs)
  have len: "length bs < 32" using snoc.prems by simp
  show ?case
  proof (cases "k < 8")
    case True
    then show ?thesis
      using len snoc.IH[of "k - 8"] by (auto simp: fromBigEndian_snoc bit_simps dest: bit_byte)
  next
    case False
    then obtain j where k: "k = 8 + j" using le_Suc_ex[of 8 k] by auto
    have b: "\<not> bit b (8 + j)" using bit_byte[of b "8 + j"] by auto
    have l: "bit (fromBigEndian (bs @ [b])) k \<longleftrightarrow> 8 + j < 256 \<and> bit (fromBigEndian bs) j"
      using b by (auto simp: k fromBigEndian_snoc bit_simps)
    have ih: "bit (fromBigEndian bs) j \<longleftrightarrow>
        j < 8 * length bs \<and> bit (bs ! (length bs - 1 - j div 8)) (j mod 8)"
      using snoc.IH[of j] len by simp
    have dm: "(8 + j) div 8 = Suc (j div 8)" "(8 + j) mod 8 = j mod 8" by simp_all
    show ?thesis
    proof (cases "j < 8 * length bs")
      case True
      then have idx: "length bs - Suc (j div 8) < length bs" by auto
      have "8 + j < 256" using True len by simp
      then show ?thesis using True idx unfolding l ih
        by (simp add: k dm nth_append)
    next
      case False
      then show ?thesis unfolding l ih by (simp add: k)
    qed
  qed
qed

lemma toBigEndian_fromBigEndian:
  assumes "length bs = 32"
  shows "toBigEndian (fromBigEndian bs) = bs"
proof (rule nth_equalityI)
  show "length (toBigEndian (fromBigEndian bs)) = length bs"
    using assms by (simp add: toBigEndian_def)
next
  fix i assume "i < length (toBigEndian (fromBigEndian bs))"
  then have i: "i < 32" by (simp add: toBigEndian_def)
  have "ucast (drop_bit (8 * (31 - i)) (fromBigEndian bs)) = bs ! i"
  proof (rule bit_word_eqI)
    fix n assume "n < LENGTH(8)"
    then have n: "n < 8" by simp
    have dm: "(8 * (31 - i) + n) div 8 = 31 - i" "(8 * (31 - i) + n) mod 8 = n" using n by simp_all
    have lt: "8 * (31 - i) + n < 8 * 32" using n i by simp
    have ix: "32 - 1 - (31 - i) = i" using i by simp
    show "bit (ucast (drop_bit (8 * (31 - i)) (fromBigEndian bs)) :: 8 word) n = bit (bs ! i) n"
      using n lt ix assms bit_fromBigEndian[of bs "8 * (31 - i) + n"]
      by (simp add: bit_simps dm add.commute)
  qed
  then show "toBigEndian (fromBigEndian bs) ! i = bs ! i"
    using i by (simp add: toBigEndian_def del: upt_Suc)
qed

lemma length_h256_AlignLeft: "length s \<le> 32 \<Longrightarrow> length (h256_AlignLeft s) = 32"
  by (simp add: h256_AlignLeft_def)

text \<open>
  C8. A string literal of at most 32 bytes decodes to the word whose 32 bytes, most
  significant first, are the bytes of the literal followed by zero bytes: the literal is
  left-aligned and padded on the right. A literal of exactly 32 bytes decodes to the word
  whose 32 bytes are the bytes of the literal. A literal of more than 32 bytes is fatal.
\<close>

theorem string_literal_left_aligned:
  "(length s \<le> 32 \<longrightarrow>
      (\<exists>w. visitExpression evm fuel (Literal String s) ev = Inr (setValue w ev) \<and>
           toBigEndian w = map of_char s @ replicate (32 - length s) 0)) \<and>
   (length s = 32 \<longrightarrow>
      (\<exists>w. visitExpression evm fuel (Literal String s) ev = Inr (setValue w ev) \<and>
           toBigEndian w = map of_char s)) \<and>
   (32 < length s \<longrightarrow> visitExpression evm fuel (Literal String s) ev = Inl Fatal)"
proof -
  have a: "length s \<le> 32 \<longrightarrow>
      (\<exists>w. visitExpression evm fuel (Literal String s) ev = Inr (setValue w ev) \<and>
           toBigEndian w = map of_char s @ replicate (32 - length s) 0)"
  proof
    assume le: "length s \<le> 32"
    have "toBigEndian (fromBigEndian (h256_AlignLeft s)) = h256_AlignLeft s"
      using toBigEndian_fromBigEndian[OF length_h256_AlignLeft[OF le]] .
    then have "toBigEndian (fromBigEndian (h256_AlignLeft s)) = map of_char s @ replicate (32 - length s) 0"
      using le by (simp add: h256_AlignLeft_def)
    moreover have "visitExpression evm fuel (Literal String s) ev =
        Inr (setValue (fromBigEndian (h256_AlignLeft s)) ev)"
      using le by (simp add: literalValue_def)
    ultimately show "\<exists>w. visitExpression evm fuel (Literal String s) ev = Inr (setValue w ev) \<and>
           toBigEndian w = map of_char s @ replicate (32 - length s) 0"
      by blast
  qed
  have b: "length s = 32 \<longrightarrow>
      (\<exists>w. visitExpression evm fuel (Literal String s) ev = Inr (setValue w ev) \<and>
           toBigEndian w = map of_char s)"
    using a by auto
  have c: "32 < length s \<longrightarrow> visitExpression evm fuel (Literal String s) ev = Inl Fatal"
    by (simp add: literalValue_def)
  show ?thesis by (rule conjI[OF a conjI[OF b c]])
qed

text \<open>The 32 bytes \<^verbatim>\<open>abcdefghijklmnopqrstuvwxyz012345\<close>, and the 3 bytes \<^verbatim>\<open>abc\<close>.\<close>

theorem string_literal_left_aligned_witness:
  "(\<exists>w. visitExpression sampleMachine 0 (Literal String ''abcdefghijklmnopqrstuvwxyz012345'') emptyEvaluator =
         Inr (setValue w emptyEvaluator) \<and>
       toBigEndian w = map of_char ''abcdefghijklmnopqrstuvwxyz012345'') \<and>
   (\<exists>w. visitExpression sampleMachine 0 (Literal String ''abc'') emptyEvaluator =
         Inr (setValue w emptyEvaluator) \<and>
       toBigEndian w = [97, 98, 99] @ replicate 29 0)"
proof -
  have l32: "length ''abcdefghijklmnopqrstuvwxyz012345'' = 32" by simp
  have l3: "length ''abc'' \<le> 32" by simp
  note t32 = string_literal_left_aligned[of "''abcdefghijklmnopqrstuvwxyz012345''" sampleMachine 0 emptyEvaluator,
      THEN conjunct2, THEN conjunct1, rule_format, OF l32]
  note t3 = string_literal_left_aligned[of "''abc''" sampleMachine 0 emptyEvaluator,
      THEN conjunct1, rule_format, OF l3]
  have "map of_char ''abc'' @ replicate (32 - length ''abc'') 0 = ([97, 98, 99] @ replicate 29 0 :: 8 word list)"
    by simp
  with t3 have t3': "\<exists>w. visitExpression sampleMachine 0 (Literal String ''abc'') emptyEvaluator =
         Inr (setValue w emptyEvaluator) \<and>
       toBigEndian w = [97, 98, 99] @ replicate 29 0"
    by (simp only:)
  from t32 t3' show ?thesis by (rule conjI)
qed

section \<open>Closing a scope\<close>

text \<open>
  C2 does not hold of this code. \<^verbatim>\<open>closeScope\<close> erases the names of the last frame, but
  neither the declaration of a variable nor the registration of a function puts the name
  into a frame: every frame stays empty, so closing a scope erases nothing. After the
  block \<^verbatim>\<open>{ let x }\<close> the variable \<^verbatim>\<open>x\<close> is still bound, and of two sibling blocks that
  both declare \<^verbatim>\<open>x\<close> the second fails, whatever the fuel.
\<close>

theorem block_leaves_names_bound:
  "variableOf ''x'' (interpretBlock sampleMachine n [VariableDeclaration [''x''] None] emptyInterpreter) =
     Inr (Some 0) \<and>
   stateOf (visitStatement sampleMachine 0 (Block siblings) emptyInterpreter) = Inl Fatal \<and>
   (\<forall>r. visitStatement sampleMachine n (Block siblings) emptyInterpreter \<noteq> Inr r)"
proof -
  have "variableOf ''x'' (interpretBlock sampleMachine 0 [VariableDeclaration [''x''] None] emptyInterpreter) =
     Inr (Some 0)"
    by code_simp
  then have a: "variableOf ''x'' (interpretBlock sampleMachine n [VariableDeclaration [''x''] None] emptyInterpreter) =
     Inr (Some 0)"
    by (rule variableOf_more_fuel) simp
  have b: "stateOf (visitStatement sampleMachine 0 (Block siblings) emptyInterpreter) = Inl Fatal"
    by code_simp
  have c: "\<forall>r. visitStatement sampleMachine n (Block siblings) emptyInterpreter \<noteq> Inr r"
    by (simp add: siblings_def interpretBlock.simps emptyInterpreter_def newInterpreter_def
        openScope_def closeScope_def)
  show ?thesis by (rule conjI[OF a conjI[OF b c]])
qed

end
